theory Spec2Isabelle
  imports Main "HOL-Library.AList" "HOL-Library.Multiset"
begin

section \<open>Data model\<close>

text \<open>
  Both source files declare the same data:
  \<^verbatim>\<open>type Item = { id: string; label: string };\<close> and
  \<^verbatim>\<open>type ColumnsState = Record<string, Item[]>;\<close>.
  A \<open>ColumnsState\<close> is the list of the object's entries (what \<^verbatim>\<open>Object.entries\<close>
  returns): container keys in the object's order, each with its item sequence. A property
  read \<^verbatim>\<open>next[key]\<close> is \<open>map_of\<close>; it is \<open>None\<close> where JavaScript yields a value
  that is no array (\<^verbatim>\<open>undefined\<close>, or an inherited property of the prototype).
\<close>

record Item =
  item_id :: string
  label :: string

type_synonym ColumnsState = "(string \<times> Item list) list"

text \<open>
  The argument of \<open>moveItem\<close> in the file with the tie-break (src/unnamed/part_000):
  \<^verbatim>\<open>type DropInfo = { id: string; from: string; to: string; beforeId: string | "last" }\<close>.
\<close>

record DropInfo =
  d_id :: string
  d_from :: string
  d_to :: string
  d_beforeId :: string

text \<open>
  The argument of \<open>moveItem\<close> in src/src/App.tsx, a union of
  \<^verbatim>\<open>{ id; from; to; beforeId?: string }\<close> and \<^verbatim>\<open>{ id; from; to; toEnd: true }\<close>.
  The function reads it field by field, so it is one record: \<open>a_beforeId\<close> is \<open>None\<close>
  when the field is absent, \<open>a_toEnd\<close> holds when the field \<^verbatim>\<open>toEnd\<close> is there (its
  type is the literal \<^verbatim>\<open>true\<close>).
\<close>

record MoveArgs =
  a_id :: string
  a_from :: string
  a_to :: string
  a_beforeId :: "string option"
  a_toEnd :: bool

text \<open>
  What a call can throw: a \<^verbatim>\<open>TypeError\<close> for a method call on a value that is no
  array, and the error of \<^verbatim>\<open>invariant(...)\<close> of tiny-invariant.
\<close>

datatype error = TypeError | InvariantFailed

section \<open>Array operations\<close>

text \<open>\<^verbatim>\<open>xs.findIndex(p)\<close>: the first index whose element satisfies \<open>p\<close>; \<open>None\<close> for \<^verbatim>\<open>-1\<close>.\<close>

fun findIndex :: "('a \<Rightarrow> bool) \<Rightarrow> 'a list \<Rightarrow> nat option" where
  "findIndex p [] = None"
| "findIndex p (x # xs) = (if p x then Some 0 else map_option Suc (findIndex p xs))"

text \<open>\<^verbatim>\<open>xs.splice(idx, 1)\<close>: the array after the removal of the element at \<open>idx\<close>.\<close>

definition splice_remove :: "nat \<Rightarrow> 'a list \<Rightarrow> 'a list" where
  "splice_remove idx xs = take idx xs @ drop (Suc idx) xs"

text \<open>
  \<^verbatim>\<open>xs.splice(i, 0, x)\<close>: the array after the insertion of \<open>x\<close> at \<open>i\<close>; JavaScript
  clamps a start beyond the length to the length.
\<close>

definition splice_insert :: "nat \<Rightarrow> 'a \<Rightarrow> 'a list \<Rightarrow> 'a list" where
  "splice_insert i x xs = take (min i (length xs)) xs @ x # drop (min i (length xs)) xs"

text \<open>\<^verbatim>\<open>xs.push(x)\<close>.\<close>

definition push :: "'a \<Rightarrow> 'a list \<Rightarrow> 'a list" where
  "push x xs = xs @ [x]"

text \<open>
  \<^verbatim>\<open>Object.fromEntries(Object.entries(state).map(([k, v]) => [k, [...v]]))\<close>: a new
  object with a copy of every sequence. As values the copy equals the original.
\<close>

definition copyState :: "ColumnsState \<Rightarrow> ColumnsState" where
  "copyState state = map (\<lambda>(k, v). (k, v)) state"

text \<open>JavaScript truthiness of an optional string: present and not empty.\<close>

definition truthy :: "string option \<Rightarrow> bool" where
  "truthy b = (case b of None \<Rightarrow> False | Some s \<Rightarrow> s \<noteq> [])"

text \<open>The items of the tests of the specification, \<open>x\<close>, \<open>y\<close> and \<open>z\<close>.\<close>

abbreviation item_x :: Item where "item_x \<equiv> \<lparr>item_id = ''x'', label = ''X''\<rparr>"
abbreviation item_y :: Item where "item_y \<equiv> \<lparr>item_id = ''y'', label = ''Y''\<rparr>"
abbreviation item_z :: Item where "item_z \<equiv> \<lparr>item_id = ''z'', label = ''Z''\<rparr>"

section \<open>moveItem\<close>

text \<open>
  \<open>moveItem\<close> of src/unnamed/part_000 (lines 31 to 53). The arrays of \<open>next\<close> are
  mutated in place; \<open>source\<close> and \<open>to\<close> are the same array when the two keys are equal,
  so the target sequence is read from the object after the removal.
\<close>

definition moveItem_part000 :: "ColumnsState \<Rightarrow> DropInfo \<Rightarrow> error + ColumnsState" where
  "moveItem_part000 state args =
    (let next = copyState state in
     case map_of next (d_from args) of
       None \<Rightarrow> Inl TypeError
     | Some source \<Rightarrow>
        (case findIndex (\<lambda>i. item_id i = d_id args) source of
           None \<Rightarrow> Inl InvariantFailed
         | Some idx \<Rightarrow>
            (let item = source ! idx;
                 next1 = AList.update (d_from args) (splice_remove idx source) next
             in case map_of next1 (d_to args) of
                  None \<Rightarrow> Inl TypeError
                | Some to \<Rightarrow>
                    if d_beforeId args = ''last''
                    then Inr (AList.update (d_to args) (push item to) next1)
                    else
                      (let beforeIndex = findIndex (\<lambda>i. item_id i = d_beforeId args) to;
                           insertIndex =
                             (case beforeIndex of
                                None \<Rightarrow> length to
                              | Some b \<Rightarrow>
                                  if d_from args = d_to args \<and> idx \<le> b then b + 1 else b)
                       in Inr (AList.update (d_to args) (splice_insert insertIndex item to) next1)))))"

text \<open>
  \<open>moveItem\<close> of src/src/App.tsx (lines 23 to 46). An absent item returns the input
  \<open>state\<close>; an argument with neither \<^verbatim>\<open>toEnd\<close> nor a truthy \<^verbatim>\<open>beforeId\<close> returns
  \<open>next\<close> after the removal alone.
\<close>

definition moveItem_App :: "ColumnsState \<Rightarrow> MoveArgs \<Rightarrow> error + ColumnsState" where
  "moveItem_App state args =
    (let next = copyState state in
     case map_of next (a_from args) of
       None \<Rightarrow> Inl TypeError
     | Some source \<Rightarrow>
        (case findIndex (\<lambda>i. item_id i = a_id args) source of
           None \<Rightarrow> Inr state
         | Some idx \<Rightarrow>
            (let item = source ! idx;
                 next1 = AList.update (a_from args) (splice_remove idx source) next
             in if a_toEnd args then
                  (case map_of next1 (a_to args) of
                     None \<Rightarrow> Inl TypeError
                   | Some to \<Rightarrow> Inr (AList.update (a_to args) (push item to) next1))
                else if truthy (a_beforeId args) then
                  (case map_of next1 (a_to args) of
                     None \<Rightarrow> Inl TypeError
                   | Some to \<Rightarrow>
                      (let beforeIndex = findIndex (\<lambda>i. Some (item_id i) = a_beforeId args) to;
                           insertIndex = (case beforeIndex of None \<Rightarrow> length to | Some b \<Rightarrow> b)
                       in Inr (AList.update (a_to args) (splice_insert insertIndex item to) next1)))
                else Inr next1)))"

section \<open>Drag payload, drop handlers and the orchestrator\<close>

text \<open>
  \<^verbatim>\<open>type DragData = { type: "item"; itemId: string; fromContainerId: string }\<close>. The
  handlers test the \<^verbatim>\<open>type\<close> field at run time, so it is any string here; the payload
  of a drag, \<^verbatim>\<open>source.data\<close>, is \<open>None\<close> when it is \<^verbatim>\<open>undefined\<close>.
\<close>

record DragData =
  dd_type :: string
  itemId :: string
  fromContainerId :: string

text \<open>\<^verbatim>\<open>getInitialData\<close> of the draggable of an item rendered in \<open>containerId\<close>.\<close>

definition getInitialData :: "Item \<Rightarrow> string \<Rightarrow> DragData" where
  "getInitialData item containerId =
     \<lparr>dd_type = ''item'', itemId = item_id item, fromContainerId = containerId\<rparr>"

text \<open>
  \<^verbatim>\<open>onDrop\<close> of the drop target of an item and of a column, in src/unnamed/part_000:
  the request handed to \<^verbatim>\<open>onMove\<close>, or \<open>None\<close> when the handler returns before the call
  (\<^verbatim>\<open>if (!data || data.type !== "item") return;\<close>).
\<close>

definition DraggableItem_onDrop_part000 :: "Item \<Rightarrow> string \<Rightarrow> DragData option \<Rightarrow> DropInfo option" where
  "DraggableItem_onDrop_part000 item containerId data =
     (case data of
        None \<Rightarrow> None
      | Some d \<Rightarrow>
          if dd_type d \<noteq> ''item'' then None
          else Some \<lparr>d_id = itemId d, d_from = fromContainerId d, d_to = containerId,
                      d_beforeId = item_id item\<rparr>)"

definition Column_onDrop_part000 :: "string \<Rightarrow> DragData option \<Rightarrow> DropInfo option" where
  "Column_onDrop_part000 cid data =
     (case data of
        None \<Rightarrow> None
      | Some d \<Rightarrow>
          if dd_type d \<noteq> ''item'' then None
          else Some \<lparr>d_id = itemId d, d_from = fromContainerId d, d_to = cid,
                      d_beforeId = ''last''\<rparr>)"

text \<open>The same two handlers in src/src/App.tsx.\<close>

definition DraggableItem_onDrop_App :: "Item \<Rightarrow> string \<Rightarrow> DragData option \<Rightarrow> MoveArgs option" where
  "DraggableItem_onDrop_App item containerId data =
     (case data of
        None \<Rightarrow> None
      | Some d \<Rightarrow>
          if dd_type d \<noteq> ''item'' then None
          else Some \<lparr>a_id = itemId d, a_from = fromContainerId d, a_to = containerId,
                      a_beforeId = Some (item_id item), a_toEnd = False\<rparr>)"

definition Column_onDrop_App :: "string \<Rightarrow> DragData option \<Rightarrow> MoveArgs option" where
  "Column_onDrop_App cid data =
     (case data of
        None \<Rightarrow> None
      | Some d \<Rightarrow>
          if dd_type d \<noteq> ''item'' then None
          else Some \<lparr>a_id = itemId d, a_from = fromContainerId d, a_to = cid,
                      a_beforeId = None, a_toEnd = True\<rparr>)"

text \<open>The initial layout of \<^verbatim>\<open>App\<close>, the same in both files.\<close>

abbreviation item_t1 :: Item where "item_t1 \<equiv> \<lparr>item_id = ''t1'', label = ''Write README''\<rparr>"
abbreviation item_t2 :: Item where "item_t2 \<equiv> \<lparr>item_id = ''t2'', label = ''Create wireframes''\<rparr>"
abbreviation item_d1 :: Item where "item_d1 \<equiv> \<lparr>item_id = ''d1'', label = ''Build UI''\<rparr>"
abbreviation item_d2 :: Item where "item_d2 \<equiv> \<lparr>item_id = ''d2'', label = ''Hook up API''\<rparr>"
abbreviation item_dn1 :: Item where "item_dn1 \<equiv> \<lparr>item_id = ''dn1'', label = ''Project kickoff''\<rparr>"

definition initialColumns :: ColumnsState where
  "initialColumns =
     [(''a1'', [item_t1, item_t2]), (''a2'', [item_d1]), (''a3'', [item_d2]),
      (''b1'', [item_dn1]), (''b2'', []), (''b3'', []), (''c1'', []), (''c2'', []), (''c3'', [])]"

text \<open>
  Two later snapshots: after the drop of \<open>t1\<close> on column \<open>b2\<close>, and then after the drop
  of \<open>t2\<close> on the item \<open>t1\<close>.
\<close>

abbreviation columns_1 :: ColumnsState where
  "columns_1 \<equiv>
     [(''a1'', [item_t2]), (''a2'', [item_d1]), (''a3'', [item_d2]), (''b1'', [item_dn1]),
      (''b2'', [item_t1]), (''b3'', []), (''c1'', []), (''c2'', []), (''c3'', [])]"

abbreviation columns_2 :: ColumnsState where
  "columns_2 \<equiv>
     [(''a1'', []), (''a2'', [item_d1]), (''a3'', [item_d2]), (''b1'', [item_dn1]),
      (''b2'', [item_t2, item_t1]), (''b3'', []), (''c1'', []), (''c2'', []), (''c3'', [])]"

text \<open>
  The snapshots the orchestrator can hold: \<^verbatim>\<open>useState\<close> starts at the initial layout,
  and \<^verbatim>\<open>onMove\<close> is \<^verbatim>\<open>setColumns((prev) => moveItem(prev, args))\<close>, called by the
  \<^verbatim>\<open>onDrop\<close> of an item or a column that the current snapshot renders, with the payload
  of the drag (any payload: the handlers do not check it against the snapshot). A call of
  \<open>moveItem\<close> that throws sets no snapshot.
\<close>

inductive reachable_part000 :: "ColumnsState \<Rightarrow> bool" where
  init: "reachable_part000 initialColumns"
| item_drop:
    "reachable_part000 s \<Longrightarrow> (k, xs) \<in> set s \<Longrightarrow> t \<in> set xs \<Longrightarrow>
     DraggableItem_onDrop_part000 t k data = Some a \<Longrightarrow> moveItem_part000 s a = Inr s' \<Longrightarrow>
     reachable_part000 s'"
| column_drop:
    "reachable_part000 s \<Longrightarrow> (k, xs) \<in> set s \<Longrightarrow>
     Column_onDrop_part000 k data = Some a \<Longrightarrow> moveItem_part000 s a = Inr s' \<Longrightarrow>
     reachable_part000 s'"

inductive reachable_App :: "ColumnsState \<Rightarrow> bool" where
  init: "reachable_App initialColumns"
| item_drop:
    "reachable_App s \<Longrightarrow> (k, xs) \<in> set s \<Longrightarrow> t \<in> set xs \<Longrightarrow>
     DraggableItem_onDrop_App t k data = Some a \<Longrightarrow> moveItem_App s a = Inr s' \<Longrightarrow>
     reachable_App s'"
| column_drop:
    "reachable_App s \<Longrightarrow> (k, xs) \<in> set s \<Longrightarrow>
     Column_onDrop_App k data = Some a \<Longrightarrow> moveItem_App s a = Inr s' \<Longrightarrow>
     reachable_App s'"

section \<open>The uniqueness invariant\<close>

text \<open>
  All items of a snapshot, container after container, and their ids. An object has each
  key once. The invariant of the store: no item id occurs twice in the whole store, that
  is, neither twice in one sequence nor in the sequences of two containers.
\<close>

definition store_items :: "ColumnsState \<Rightarrow> Item list" where
  "store_items state = concat (map snd state)"

definition store_ids :: "ColumnsState \<Rightarrow> string list" where
  "store_ids state = map item_id (store_items state)"

definition unique_ids :: "ColumnsState \<Rightarrow> bool" where
  "unique_ids state \<longleftrightarrow> distinct (map fst state) \<and> distinct (store_ids state)"

text \<open>A request as a drop produces it in src/src/App.tsx: the end, or a non-empty anchor id.\<close>

definition drop_shaped :: "MoveArgs \<Rightarrow> bool" where
  "drop_shaped args \<longleftrightarrow> a_toEnd args \<or> truthy (a_beforeId args)"

section \<open>Drop targets and the conflict between item and column\<close>

text \<open>
  A DOM element, as far as the drop targets read it: whether it is an
  \<^verbatim>\<open>HTMLElement\<close>, its attributes, and its child elements (\<^verbatim>\<open>element.children\<close>).
\<close>

datatype Element =
  Element (isHTMLElement: bool) (attributes: "(string \<times> string) list") (children: "Element list")

definition hasAttribute :: "Element \<Rightarrow> string \<Rightarrow> bool" where
  "hasAttribute e name \<longleftrightarrow> name \<in> fst ` set (attributes e)"

definition setAttribute :: "string \<Rightarrow> string \<Rightarrow> Element \<Rightarrow> Element" where
  "setAttribute name v e =
     Element (isHTMLElement e) (AList.update name v (attributes e)) (children e)"

definition removeAttribute :: "string \<Rightarrow> Element \<Rightarrow> Element" where
  "removeAttribute name e =
     Element (isHTMLElement e) (AList.delete name (attributes e)) (children e)"

text \<open>\<open>hasDropIntent\<close> of src/unnamed/part_000 (lines 55 to 62): the loop over the children.\<close>

fun hasDropIntent :: "Element list \<Rightarrow> bool" where
  "hasDropIntent [] = False"
| "hasDropIntent (c # cs) =
     (if isHTMLElement c \<and> hasAttribute c ''data-drop-intent'' then True
      else hasDropIntent cs)"

text \<open>The test \<^verbatim>\<open>source.data?.type === "item"\<close> of the handlers.\<close>

definition is_item_drag :: "DragData option \<Rightarrow> bool" where
  "is_item_drag data = (case data of None \<Rightarrow> False | Some d \<Rightarrow> dd_type d = ''item'')"

text \<open>
  The drop target of an item in src/unnamed/part_000: \<^verbatim>\<open>canDrop\<close>, and what
  \<^verbatim>\<open>onDragEnter\<close> and \<^verbatim>\<open>onDragLeave\<close> do to the item's element.
\<close>

definition DraggableItem_canDrop :: "DragData option \<Rightarrow> bool" where
  "DraggableItem_canDrop data = is_item_drag data"

definition DraggableItem_onDragEnter :: "DragData option \<Rightarrow> Element \<Rightarrow> Element" where
  "DraggableItem_onDragEnter data self =
     (if \<not> is_item_drag data then self else setAttribute ''data-drop-intent'' ''before'' self)"

definition DraggableItem_onDragLeave :: "Element \<Rightarrow> Element" where
  "DraggableItem_onDragLeave self = removeAttribute ''data-drop-intent'' self"

text \<open>\<^verbatim>\<open>canDrop\<close> of the drop target of a column in src/unnamed/part_000 (lines 147 to 151).\<close>

definition Column_canDrop_part000 :: "DragData option \<Rightarrow> Element \<Rightarrow> bool" where
  "Column_canDrop_part000 data element \<longleftrightarrow>
     is_item_drag data \<and> \<not> hasDropIntent (children element)"

text \<open>
  Modelled from the spec: the delivery of a drop by the drag-and-drop adapter
  (\<^verbatim>\<open>dropTargetForElements\<close> of @atlaskit/pragmatic-drag-and-drop, an external library
  that is not part of the sources). Section 6 of the specification: a drop target is
  registered with an acceptance predicate over the payload and a drop callback. A drop
  inside the region of an item, which lies inside the element of its column, reaches the
  item's target and then the column's target, each only when its predicate accepts; the
  requests are those the two \<^verbatim>\<open>onDrop\<close> handlers hand to \<^verbatim>\<open>onMove\<close>.
\<close>

definition drop_in_item_region ::
  "DragData option \<Rightarrow> Item \<Rightarrow> string \<Rightarrow> Element \<Rightarrow> DropInfo list" where
  "drop_in_item_region data item containerId element =
     (if DraggableItem_canDrop data
      then (case DraggableItem_onDrop_part000 item containerId data of
              None \<Rightarrow> [] | Some r \<Rightarrow> [r])
      else []) @
     (if Column_canDrop_part000 data element
      then (case Column_onDrop_part000 containerId data of None \<Rightarrow> [] | Some r \<Rightarrow> [r])
      else [])"

section \<open>moveItem on a store of objects and arrays\<close>

text \<open>
  The objects and arrays of the JavaScript heap, for the claims about what \<open>moveItem\<close>
  mutates. A reference is the index of a cell; a cell is an array of items or an object
  with its entries, each a key and the reference of an array. A new cell is added at the
  end, so its reference is the length of the store before.
\<close>

type_synonym ref = nat

datatype cell = Arr "Item list" | Obj "(string \<times> ref) list"

type_synonym store = "cell list"

definition getArr :: "store \<Rightarrow> ref \<Rightarrow> Item list option" where
  "getArr h r = (if r < length h then (case h ! r of Arr xs \<Rightarrow> Some xs | Obj es \<Rightarrow> None) else None)"

definition getObj :: "store \<Rightarrow> ref \<Rightarrow> (string \<times> ref) list option" where
  "getObj h r = (if r < length h then (case h ! r of Obj es \<Rightarrow> Some es | Arr xs \<Rightarrow> None) else None)"

text \<open>
  \<^verbatim>\<open>Object.entries(state).map(([k, v]) => [k, [...v]])\<close>: one new array for each entry,
  with the items of the old one. \<open>None\<close> when a value is no array (a \<^verbatim>\<open>TypeError\<close>).
\<close>

fun copyEntries :: "store \<Rightarrow> (string \<times> ref) list \<Rightarrow> (store \<times> (string \<times> ref) list) option" where
  "copyEntries h [] = Some (h, [])"
| "copyEntries h ((k, v) # es) =
     (case getArr h v of
        None \<Rightarrow> None
      | Some xs \<Rightarrow>
          (case copyEntries (h @ [Arr xs]) es of
             None \<Rightarrow> None
           | Some (h', es') \<Rightarrow> Some (h', (k, length h) # es')))"

text \<open>
  \<open>moveItem\<close> of src/unnamed/part_000 on the store: \<open>state\<close> is the reference of the
  snapshot; the result is the store after the call, with the reference returned or the
  error thrown. \<^verbatim>\<open>Object.fromEntries\<close> adds the object \<open>next\<close>; \<^verbatim>\<open>splice\<close> and
  \<^verbatim>\<open>push\<close> write the arrays \<open>source\<close> and \<open>to\<close> in place.
\<close>

definition moveItem_part000_store :: "store \<Rightarrow> ref \<Rightarrow> DropInfo \<Rightarrow> store \<times> (error + ref)" where
  "moveItem_part000_store h state args =
    (case getObj h state of
       None \<Rightarrow> (h, Inl TypeError)
     | Some entries \<Rightarrow>
    (case copyEntries h entries of
       None \<Rightarrow> (h, Inl TypeError)
     | Some (h1, copies) \<Rightarrow>
    (let next = length h1; h2 = h1 @ [Obj copies] in
     case map_of copies (d_from args) of
       None \<Rightarrow> (h2, Inl TypeError)
     | Some source \<Rightarrow>
    (case getArr h2 source of
       None \<Rightarrow> (h2, Inl TypeError)
     | Some src \<Rightarrow>
    (case findIndex (\<lambda>i. item_id i = d_id args) src of
       None \<Rightarrow> (h2, Inl InvariantFailed)
     | Some idx \<Rightarrow>
    (let item = src ! idx; h3 = h2[source := Arr (splice_remove idx src)] in
     case map_of copies (d_to args) of
       None \<Rightarrow> (h3, Inl TypeError)
     | Some to \<Rightarrow>
    (case getArr h3 to of
       None \<Rightarrow> (h3, Inl TypeError)
     | Some tgt \<Rightarrow>
        if d_beforeId args = ''last''
        then (h3[to := Arr (push item tgt)], Inr next)
        else
          (let beforeIndex = findIndex (\<lambda>i. item_id i = d_beforeId args) tgt;
               insertIndex =
                 (case beforeIndex of
                    None \<Rightarrow> length tgt
                  | Some b \<Rightarrow> if d_from args = d_to args \<and> idx \<le> b then b + 1 else b)
           in (h3[to := Arr (splice_insert insertIndex item tgt)], Inr next)))))))))"

text \<open>\<open>moveItem\<close> of src/src/App.tsx on the store.\<close>

definition moveItem_App_store :: "store \<Rightarrow> ref \<Rightarrow> MoveArgs \<Rightarrow> store \<times> (error + ref)" where
  "moveItem_App_store h state args =
    (case getObj h state of
       None \<Rightarrow> (h, Inl TypeError)
     | Some entries \<Rightarrow>
    (case copyEntries h entries of
       None \<Rightarrow> (h, Inl TypeError)
     | Some (h1, copies) \<Rightarrow>
    (let next = length h1; h2 = h1 @ [Obj copies] in
     case map_of copies (a_from args) of
       None \<Rightarrow> (h2, Inl TypeError)
     | Some source \<Rightarrow>
    (case getArr h2 source of
       None \<Rightarrow> (h2, Inl TypeError)
     | Some src \<Rightarrow>
    (case findIndex (\<lambda>i. item_id i = a_id args) src of
       None \<Rightarrow> (h2, Inr state)
     | Some idx \<Rightarrow>
    (let item = src ! idx; h3 = h2[source := Arr (splice_remove idx src)] in
     if a_toEnd args then
       (case map_of copies (a_to args) of
          None \<Rightarrow> (h3, Inl TypeError)
        | Some to \<Rightarrow>
       (case getArr h3 to of
          None \<Rightarrow> (h3, Inl TypeError)
        | Some tgt \<Rightarrow> (h3[to := Arr (push item tgt)], Inr next)))
     else if truthy (a_beforeId args) then
       (case map_of copies (a_to args) of
          None \<Rightarrow> (h3, Inl TypeError)
        | Some to \<Rightarrow>
       (case getArr h3 to of
          None \<Rightarrow> (h3, Inl TypeError)
        | Some tgt \<Rightarrow>
           (let beforeIndex = findIndex (\<lambda>i. Some (item_id i) = a_beforeId args) tgt;
                insertIndex = (case beforeIndex of None \<Rightarrow> length tgt | Some b \<Rightarrow> b)
            in (h3[to := Arr (splice_insert insertIndex item tgt)], Inr next))))
     else (h3, Inr next)))))))"

text \<open>
  The snapshot a reference stands for: the entries of the object, each key with the
  items of its array. \<open>None\<close> when the reference is no object of arrays.
\<close>

fun read_entries :: "store \<Rightarrow> (string \<times> ref) list \<Rightarrow> ColumnsState option" where
  "read_entries h [] = Some []"
| "read_entries h ((k, a) # es) =
     (case getArr h a of
        None \<Rightarrow> None
      | Some xs \<Rightarrow> (case read_entries h es of None \<Rightarrow> None | Some s \<Rightarrow> Some ((k, xs) # s)))"

definition read_state :: "store \<Rightarrow> ref \<Rightarrow> ColumnsState option" where
  "read_state h r = (case getObj h r of None \<Rightarrow> None | Some es \<Rightarrow> read_entries h es)"

text \<open>
  The state of a run after the copy: the store \<open>h\<close> extends the store \<open>h0\<close> of the call,
  \<open>next\<close> is the new object with the entries \<open>copies\<close>, whose arrays are new, pairwise
  different, and hold the snapshot \<open>s\<close>.
\<close>

definition fresh_copy :: "store \<Rightarrow> store \<Rightarrow> ref \<Rightarrow> (string \<times> ref) list \<Rightarrow> ColumnsState \<Rightarrow> bool" where
  "fresh_copy h0 h next copies s \<longleftrightarrow>
     take (length h0) h = h0 \<and> getObj h next = Some copies \<and> read_entries h copies = Some s \<and>
     distinct (map snd copies) \<and> (\<forall>a\<in>snd ` set copies. length h0 \<le> a \<and> a < next) \<and>
     length h0 \<le> next"

text \<open>
  A store with the snapshot \<open>{A: [x, y], B: [z], C: []}\<close> at reference 3, and the store
  after \<open>x\<close> is moved from \<open>A\<close> to \<open>B\<close> before \<open>z\<close>.
\<close>

abbreviation store_0 :: store where
  "store_0 \<equiv> [Arr [item_x, item_y], Arr [item_z], Arr [], Obj [(''A'', 0), (''B'', 1), (''C'', 2)]]"

abbreviation store_1 :: store where
  "store_1 \<equiv> [Arr [item_x, item_y], Arr [item_z], Arr [], Obj [(''A'', 0), (''B'', 1), (''C'', 2)],
              Arr [item_y], Arr [item_x, item_z], Arr [], Obj [(''A'', 4), (''B'', 5), (''C'', 6)]]"

section \<open>Basic facts\<close>

lemma copyState_id [simp]: "copyState state = state"
  by (simp add: copyState_def)

lemma findIndex_None_iff: "findIndex p xs = None \<longleftrightarrow> (\<forall>x\<in>set xs. \<not> p x)"
  by (induction xs) auto

lemma findIndex_Some_iff:
  "findIndex p xs = Some n \<longleftrightarrow> n < length xs \<and> p (xs ! n) \<and> (\<forall>j<n. \<not> p (xs ! j))"
proof (induction xs arbitrary: n)
  case Nil
  then show ?case by simp
next
  case (Cons x xs)
  show ?case
  proof (cases "p x")
    case True
    then show ?thesis by (cases n) auto
  next
    case False
    show ?thesis
    proof (cases n)
      case 0
      with False show ?thesis by auto
    next
      case (Suc m)
      have "(\<forall>j<Suc m. \<not> p ((x # xs) ! j)) \<longleftrightarrow> (\<forall>j<m. \<not> p (xs ! j))"
        using False by (auto simp: less_Suc_eq_0_disj)
      with False Suc Cons.IH [of m] show ?thesis by auto
    qed
  qed
qed

lemma findIndex_id_append:
  "i \<notin> item_id ` set pre \<Longrightarrow> item_id a = i \<Longrightarrow>
   findIndex (\<lambda>x. item_id x = i) (pre @ a # rest) = Some (length pre)"
  by (induction pre) auto

lemma findIndex_id_None:
  "i \<notin> item_id ` set xs \<Longrightarrow> findIndex (\<lambda>x. item_id x = i) xs = None"
  by (auto simp: findIndex_None_iff)

lemma splice_remove_append [simp]: "splice_remove (length pre) (pre @ a # rest) = pre @ rest"
  by (simp add: splice_remove_def)

lemma splice_insert_append:
  "splice_insert (Suc (length pre)) a (pre @ b # post) = pre @ b # a # post"
  by (simp add: splice_insert_def)

lemma splice_insert_append0: "splice_insert (length pre) a (pre @ post) = pre @ a # post"
  by (simp add: splice_insert_def)

lemma splice_insert_end [simp]: "splice_insert (length xs) x xs = xs @ [x]"
  by (simp add: splice_insert_def)

lemma splice_remove_nth_lt: "j < i \<Longrightarrow> i < length xs \<Longrightarrow> splice_remove i xs ! j = xs ! j"
  by (simp add: splice_remove_def nth_append)

text \<open>
  The comparison of the source, \<^verbatim>\<open>idx <= beforeIndex\<close>, is on the anchor's index after
  the removal. It agrees with the comparison on the index before the removal.
\<close>

lemma findIndex_after_removal:
  assumes "findIndex p xs = Some b" and "findIndex p (splice_remove i xs) = Some q"
      and "i \<le> b" and "i < length xs"
  shows "i \<le> q"
proof (rule ccontr)
  assume "\<not> i \<le> q"
  then have "q < i" by simp
  from assms(2) have "p (splice_remove i xs ! q)" by (simp add: findIndex_Some_iff)
  with \<open>q < i\<close> assms(4) have "p (xs ! q)" by (simp add: splice_remove_nth_lt)
  moreover from assms(1) have "\<forall>j<b. \<not> p (xs ! j)" by (simp add: findIndex_Some_iff)
  ultimately show False using \<open>q < i\<close> assms(3) by auto
qed

lemma splice_remove_distinct_notin:
  assumes "distinct (map f xs)" and "idx < length xs"
  shows "f (xs ! idx) \<notin> f ` set (splice_remove idx xs)"
proof -
  have "xs = take idx xs @ xs ! idx # drop (Suc idx) xs"
    using assms(2) by (rule id_take_nth_drop)
  then have "distinct (map f (take idx xs) @ f (xs ! idx) # map f (drop (Suc idx) xs))"
    using assms(1) by (metis list.simps(9) map_append)
  then show ?thesis by (auto simp: splice_remove_def)
qed

lemma distinct_id_removed:
  assumes "distinct (map item_id xs)" and "findIndex (\<lambda>x. item_id x = i) xs = Some idx"
  shows "i \<notin> item_id ` set (splice_remove idx xs)"
proof -
  from assms(2) have "idx < length xs" and "item_id (xs ! idx) = i"
    by (simp_all add: findIndex_Some_iff)
  with assms(1) show ?thesis
    using splice_remove_distinct_notin [of item_id xs idx] by simp
qed

section \<open>What moveItem returns, case by case\<close>

lemma part000_same_anchor:
  assumes "map_of state A = Some xs"
      and "findIndex (\<lambda>i. item_id i = d_id args) xs = Some idx"
      and "d_from args = A" and "d_to args = A"
      and "d_beforeId args \<noteq> ''last''"
      and "findIndex (\<lambda>i. item_id i = d_beforeId args) (splice_remove idx xs) = Some q"
  shows "moveItem_part000 state args =
         Inr (AList.update A
               (splice_insert (if idx \<le> q then q + 1 else q) (xs ! idx) (splice_remove idx xs))
               state)"
  using assms by (simp add: moveItem_part000_def Let_def update_conv')

lemma App_same_anchor:
  assumes "map_of state A = Some xs"
      and "findIndex (\<lambda>i. item_id i = a_id args) xs = Some idx"
      and "a_from args = A" and "a_to args = A"
      and "\<not> a_toEnd args" and "a_beforeId args = Some b" and "b \<noteq> []"
      and "findIndex (\<lambda>i. item_id i = b) (splice_remove idx xs) = Some q"
  shows "moveItem_App state args =
         Inr (AList.update A (splice_insert q (xs ! idx) (splice_remove idx xs)) state)"
  using assms by (simp add: moveItem_App_def Let_def update_conv' truthy_def)

lemma part000_missing_anchor:
  assumes "map_of state (d_from args) = Some source"
      and "findIndex (\<lambda>i. item_id i = d_id args) source = Some idx"
      and "map_of state (d_to args) = Some target"
      and "to = (if d_to args = d_from args then splice_remove idx source else target)"
      and "d_beforeId args \<notin> item_id ` set to"
  shows "moveItem_part000 state args =
          Inr (AList.update (d_to args) (to @ [source ! idx])
                (AList.update (d_from args) (splice_remove idx source) state))"
  using assms
  by (cases "d_to args = d_from args")
    (simp_all add: moveItem_part000_def Let_def update_conv' push_def findIndex_id_None)

lemma App_missing_anchor:
  assumes "map_of state (a_from args) = Some source"
      and "findIndex (\<lambda>i. item_id i = a_id args) source = Some idx"
      and "map_of state (a_to args) = Some target"
      and "to = (if a_to args = a_from args then splice_remove idx source else target)"
      and "a_beforeId args = Some b" and "b \<noteq> []" and "b \<notin> item_id ` set to"
  shows "moveItem_App state args =
          Inr (AList.update (a_to args) (to @ [source ! idx])
                (AList.update (a_from args) (splice_remove idx source) state))"
  using assms
  by (cases "a_to args = a_from args")
    (simp_all add: moveItem_App_def Let_def update_conv' truthy_def push_def findIndex_id_None)

lemma App_no_insertion:
  assumes "map_of state (a_from args) = Some source"
      and "findIndex (\<lambda>i. item_id i = a_id args) source = Some idx"
      and "\<not> a_toEnd args" and "\<not> truthy (a_beforeId args)"
  shows "moveItem_App state args = Inr (AList.update (a_from args) (splice_remove idx source) state)"
  using assms by (simp add: moveItem_App_def Let_def)

section \<open>Same-container moves\<close>

text \<open>
  Claim C1, in the form that holds of the code. The test of the same-container forward
  move: in the snapshot \<open>{A: [x, y, z]}\<close>, with three different item ids, move \<open>x\<close>
  within \<open>A\<close> with anchor \<open>z\<close>. \<open>moveItem\<close> of src/unnamed/part_000, which has the tie-break, returns
  \<open>{A: [y, z, x]}\<close>: \<open>x\<close> ends up after \<open>z\<close>. \<open>moveItem\<close> of src/src/App.tsx, which has
  no tie-break, returns \<open>{A: [y, x, z]}\<close> (for a non-empty anchor id).
\<close>

theorem C1_forward_move:
  "item_id x \<noteq> item_id y \<and> item_id x \<noteq> item_id z \<and> item_id y \<noteq> item_id z \<longrightarrow>
     moveItem_part000 [(A, [x, y, z])]
       \<lparr>d_id = item_id x, d_from = A, d_to = A, d_beforeId = item_id z\<rparr> = Inr [(A, [y, z, x])] \<and>
     (item_id z \<noteq> [] \<longrightarrow>
        moveItem_App [(A, [x, y, z])]
          \<lparr>a_id = item_id x, a_from = A, a_to = A, a_beforeId = Some (item_id z), a_toEnd = False\<rparr>
        = Inr [(A, [y, x, z])])"
  by (simp add: moveItem_part000_def moveItem_App_def Let_def truthy_def splice_remove_def
      splice_insert_def push_def)

text \<open>The test itself, on both variants.\<close>

theorem C1_forward_move_witness:
  "moveItem_part000 [(''A'', [item_x, item_y, item_z])]
     \<lparr>d_id = ''x'', d_from = ''A'', d_to = ''A'', d_beforeId = ''z''\<rparr>
   = Inr [(''A'', [item_y, item_z, item_x])] \<and>
   moveItem_App [(''A'', [item_x, item_y, item_z])]
     \<lparr>a_id = ''x'', a_from = ''A'', a_to = ''A'', a_beforeId = Some ''z'', a_toEnd = False\<rparr>
   = Inr [(''A'', [item_y, item_x, item_z])]"
  using C1_forward_move [of "item_x" "item_y" "item_z" "''A''"]
  by simp

text \<open>
  Claim C1 in its original form fails on src/unnamed/part_000: the result of the test
  is not \<open>{A: [y, x, z]}\<close>.
\<close>

theorem C1_counterexample:
  "moveItem_part000 [(''A'', [item_x, item_y, item_z])]
     \<lparr>d_id = ''x'', d_from = ''A'', d_to = ''A'', d_beforeId = ''z''\<rparr>
   \<noteq> Inr [(''A'', [item_y, item_x, item_z])]"
  by (simp add: moveItem_part000_def Let_def splice_remove_def splice_insert_def push_def)

text \<open>
  Claim C2, in the form that holds of the code. In \<open>moveItem\<close> of
  src/unnamed/part_000, for a move within one container \<open>A\<close> whose anchor is an item id
  (not the sentinel \<^verbatim>\<open>"last"\<close>) found in the sequence after the removal at index \<open>q\<close>:
  when the moved item's index \<open>idx\<close> is at or before the anchor's index \<open>b\<close> before the
  removal, the item is inserted at \<open>q + 1\<close>. In particular, in a sequence
  \<open>pre @ [a, b'] @ post\<close> moving \<open>a\<close> with anchor \<open>b'\<close> yields \<open>pre @ [b', a] @ post\<close>.
  \<open>moveItem\<close> of src/src/App.tsx has no tie-break: for every move within one container
  with no end flag and a non-empty anchor id found in the sequence after the removal at
  index \<open>q\<close>, wherever the moved item was, it inserts at \<open>q\<close>; so moving \<open>a\<close> with a
  non-empty anchor \<open>b'\<close> in \<open>pre @ [a, b'] @ post\<close> leaves the sequence as it was.
\<close>

theorem C2_tie_break:
  "(map_of state A = Some xs \<and> d_from args = A \<and> d_to args = A \<and>
    d_beforeId args \<noteq> ''last'' \<and>
    findIndex (\<lambda>i. item_id i = d_id args) xs = Some idx \<and>
    findIndex (\<lambda>i. item_id i = d_beforeId args) xs = Some b \<and>
    findIndex (\<lambda>i. item_id i = d_beforeId args) (splice_remove idx xs) = Some q \<and> idx \<le> b
    \<longrightarrow> moveItem_part000 state args =
          Inr (AList.update A (splice_insert (q + 1) (xs ! idx) (splice_remove idx xs)) state))
   \<and>
   (map_of state A = Some (pre @ a # b' # post) \<and> item_id a \<notin> item_id ` set pre \<and>
    item_id b' \<notin> item_id ` set pre \<and> item_id a \<noteq> item_id b' \<and> item_id b' \<noteq> ''last''
    \<longrightarrow> moveItem_part000 state
            \<lparr>d_id = item_id a, d_from = A, d_to = A, d_beforeId = item_id b'\<rparr> =
          Inr (AList.update A (pre @ b' # a # post) state))
   \<and>
   (map_of state A = Some ys \<and> a_from aargs = A \<and> a_to aargs = A \<and> \<not> a_toEnd aargs \<and>
    a_beforeId aargs = Some anchor \<and> anchor \<noteq> [] \<and>
    findIndex (\<lambda>i. item_id i = a_id aargs) ys = Some j \<and>
    findIndex (\<lambda>i. item_id i = anchor) (splice_remove j ys) = Some p
    \<longrightarrow> moveItem_App state aargs =
          Inr (AList.update A (splice_insert p (ys ! j) (splice_remove j ys)) state))
   \<and>
   (map_of state A = Some (pre @ a # b' # post) \<and> item_id a \<notin> item_id ` set pre \<and>
    item_id b' \<notin> item_id ` set pre \<and> item_id a \<noteq> item_id b' \<and> item_id b' \<noteq> []
    \<longrightarrow> moveItem_App state
            \<lparr>a_id = item_id a, a_from = A, a_to = A, a_beforeId = Some (item_id b'),
               a_toEnd = False\<rparr> =
          Inr (AList.update A (pre @ a # b' # post) state))"
proof (intro conjI impI)
  assume h: "map_of state A = Some xs \<and> d_from args = A \<and> d_to args = A \<and>
    d_beforeId args \<noteq> ''last'' \<and>
    findIndex (\<lambda>i. item_id i = d_id args) xs = Some idx \<and>
    findIndex (\<lambda>i. item_id i = d_beforeId args) xs = Some b \<and>
    findIndex (\<lambda>i. item_id i = d_beforeId args) (splice_remove idx xs) = Some q \<and> idx \<le> b"
  then have "idx < length xs" by (simp add: findIndex_Some_iff)
  with h have "idx \<le> q" using findIndex_after_removal [of _ xs b idx q] by blast
  with h show "moveItem_part000 state args =
          Inr (AList.update A (splice_insert (q + 1) (xs ! idx) (splice_remove idx xs)) state)"
    using part000_same_anchor [of state A xs args idx q] by simp
next
  let ?args = "\<lparr>d_id = item_id a, d_from = A, d_to = A, d_beforeId = item_id b'\<rparr>"
  assume h: "map_of state A = Some (pre @ a # b' # post) \<and> item_id a \<notin> item_id ` set pre \<and>
    item_id b' \<notin> item_id ` set pre \<and> item_id a \<noteq> item_id b' \<and> item_id b' \<noteq> ''last''"
  have i: "findIndex (\<lambda>i. item_id i = d_id ?args) (pre @ a # b' # post) = Some (length pre)"
    using h by (simp add: findIndex_id_append)
  have q: "findIndex (\<lambda>i. item_id i = d_beforeId ?args)
             (splice_remove (length pre) (pre @ a # b' # post)) = Some (length pre)"
    using h by (simp add: findIndex_id_append)
  show "moveItem_part000 state ?args = Inr (AList.update A (pre @ b' # a # post) state)"
    using h part000_same_anchor [OF _ i _ _ _ q, of state A]
    by (simp add: splice_insert_append)
next
  assume "map_of state A = Some ys \<and> a_from aargs = A \<and> a_to aargs = A \<and> \<not> a_toEnd aargs \<and>
    a_beforeId aargs = Some anchor \<and> anchor \<noteq> [] \<and>
    findIndex (\<lambda>i. item_id i = a_id aargs) ys = Some j \<and>
    findIndex (\<lambda>i. item_id i = anchor) (splice_remove j ys) = Some p"
  then show "moveItem_App state aargs =
          Inr (AList.update A (splice_insert p (ys ! j) (splice_remove j ys)) state)"
    using App_same_anchor [of state A ys aargs j anchor p] by blast
next
  let ?args = "\<lparr>a_id = item_id a, a_from = A, a_to = A, a_beforeId = Some (item_id b'),
                 a_toEnd = False\<rparr>"
  assume h: "map_of state A = Some (pre @ a # b' # post) \<and> item_id a \<notin> item_id ` set pre \<and>
    item_id b' \<notin> item_id ` set pre \<and> item_id a \<noteq> item_id b' \<and> item_id b' \<noteq> []"
  have i: "findIndex (\<lambda>i. item_id i = a_id ?args) (pre @ a # b' # post) = Some (length pre)"
    using h by (simp add: findIndex_id_append)
  have q: "findIndex (\<lambda>i. item_id i = item_id b')
             (splice_remove (length pre) (pre @ a # b' # post)) = Some (length pre)"
    using h by (simp add: findIndex_id_append)
  show "moveItem_App state ?args = Inr (AList.update A (pre @ a # b' # post) state)"
    using h App_same_anchor [OF _ i _ _ _ _ _ q, of state A]
    by (simp add: splice_insert_append0)
qed

text \<open>
  At \<open>{A: [x, y, z]}\<close>. In part_000, moving \<open>x\<close> with anchor \<open>z\<close> (indices 0 and 2
  before the removal, anchor at 1 after it) inserts at 2, and moving \<open>y\<close> with the next
  item \<open>z\<close> as anchor swaps the two. In App.tsx, moving \<open>z\<close> backward with anchor \<open>y\<close>
  (at 1 after the removal) inserts at 1, and moving \<open>y\<close> with anchor \<open>z\<close> changes
  nothing.
\<close>

theorem C2_tie_break_witness:
  "moveItem_part000 [(''A'', [item_x, item_y, item_z])]
     \<lparr>d_id = ''x'', d_from = ''A'', d_to = ''A'', d_beforeId = ''z''\<rparr>
   = Inr [(''A'', [item_y, item_z, item_x])] \<and>
   moveItem_part000 [(''A'', [item_x, item_y, item_z])]
     \<lparr>d_id = ''y'', d_from = ''A'', d_to = ''A'', d_beforeId = ''z''\<rparr>
   = Inr [(''A'', [item_x, item_z, item_y])] \<and>
   moveItem_App [(''A'', [item_x, item_y, item_z])]
     \<lparr>a_id = ''z'', a_from = ''A'', a_to = ''A'', a_beforeId = Some ''y'', a_toEnd = False\<rparr>
   = Inr [(''A'', [item_x, item_z, item_y])] \<and>
   moveItem_App [(''A'', [item_x, item_y, item_z])]
     \<lparr>a_id = ''y'', a_from = ''A'', a_to = ''A'', a_beforeId = Some ''z'', a_toEnd = False\<rparr>
   = Inr [(''A'', [item_x, item_y, item_z])]"
  using C2_tie_break [where state = "[(''A'', [item_x, item_y, item_z])]" and A = "''A''"
      and xs = "[item_x, item_y, item_z]"
      and args = "\<lparr>d_id = ''x'', d_from = ''A'', d_to = ''A'', d_beforeId = ''z''\<rparr>"
      and idx = 0 and b = 2 and q = 1
      and pre = "[item_x]" and a = item_y and b' = item_z and post = "[]"
      and ys = "[item_x, item_y, item_z]"
      and aargs = "\<lparr>a_id = ''z'', a_from = ''A'', a_to = ''A'', a_beforeId = Some ''y'',
                      a_toEnd = False\<rparr>"
      and anchor = "''y''" and j = 2 and p = 1]
  by (simp add: splice_remove_def splice_insert_def)

text \<open>
  Claim C2 in its original form fails on src/src/App.tsx: in \<open>[a, b]\<close>, moving \<open>a\<close>
  with anchor \<open>b\<close>
  leaves \<open>[a, b]\<close> and does not yield \<open>[b, a]\<close>.
\<close>

theorem C2_counterexample:
  "moveItem_App [(''A'', [item_x, item_y])]
     \<lparr>a_id = ''x'', a_from = ''A'', a_to = ''A'', a_beforeId = Some ''y'', a_toEnd = False\<rparr>
   = Inr [(''A'', [item_x, item_y])] \<and>
   moveItem_App [(''A'', [item_x, item_y])]
     \<lparr>a_id = ''x'', a_from = ''A'', a_to = ''A'', a_beforeId = Some ''y'', a_toEnd = False\<rparr>
   \<noteq> Inr [(''A'', [item_y, item_x])]"
  by (simp add: moveItem_App_def Let_def truthy_def splice_remove_def splice_insert_def)

section \<open>Missing anchors\<close>

text \<open>
  Claim C5, in the form that holds of the code. The item is in the source container,
  the target container exists, and the anchor id is the id of no item of the target
  sequence as it is after the removal (\<open>to\<close>; the removal changes it only when source and
  target are one container). Then \<open>moveItem\<close> of src/unnamed/part_000 returns a
  snapshot, with the item appended at the end of the target sequence, for every anchor
  id; \<open>moveItem\<close> of src/src/App.tsx does so for every non-empty anchor id. For the empty
  string as \<^verbatim>\<open>beforeId\<close> and no end flag, App.tsx returns too, with the item removed from
  the source sequence and appended to none.
\<close>

theorem C5_missing_anchor:
  "(map_of state (d_from dargs) = Some dsource \<and>
    findIndex (\<lambda>i. item_id i = d_id dargs) dsource = Some didx \<and>
    map_of state (d_to dargs) = Some dtarget \<and>
    dto = (if d_to dargs = d_from dargs then splice_remove didx dsource else dtarget) \<and>
    d_beforeId dargs \<notin> item_id ` set dto
    \<longrightarrow> moveItem_part000 state dargs =
          Inr (AList.update (d_to dargs) (dto @ [dsource ! didx])
                (AList.update (d_from dargs) (splice_remove didx dsource) state))) \<and>
   (map_of state (a_from args) = Some source \<and>
    findIndex (\<lambda>i. item_id i = a_id args) source = Some idx \<and>
    map_of state (a_to args) = Some target \<and>
    to = (if a_to args = a_from args then splice_remove idx source else target) \<and>
    a_beforeId args = Some b \<and> b \<noteq> [] \<and> b \<notin> item_id ` set to
    \<longrightarrow> moveItem_App state args =
          Inr (AList.update (a_to args) (to @ [source ! idx])
                (AList.update (a_from args) (splice_remove idx source) state))) \<and>
   (map_of state (a_from args) = Some source \<and>
    findIndex (\<lambda>i. item_id i = a_id args) source = Some idx \<and>
    a_beforeId args = Some [] \<and> \<not> a_toEnd args
    \<longrightarrow> moveItem_App state args =
          Inr (AList.update (a_from args) (splice_remove idx source) state))"
proof (intro conjI impI)
  assume "map_of state (d_from dargs) = Some dsource \<and>
    findIndex (\<lambda>i. item_id i = d_id dargs) dsource = Some didx \<and>
    map_of state (d_to dargs) = Some dtarget \<and>
    dto = (if d_to dargs = d_from dargs then splice_remove didx dsource else dtarget) \<and>
    d_beforeId dargs \<notin> item_id ` set dto"
  then show "moveItem_part000 state dargs =
          Inr (AList.update (d_to dargs) (dto @ [dsource ! didx])
                (AList.update (d_from dargs) (splice_remove didx dsource) state))"
    using part000_missing_anchor [of state dargs dsource didx dtarget dto] by blast
next
  assume "map_of state (a_from args) = Some source \<and>
    findIndex (\<lambda>i. item_id i = a_id args) source = Some idx \<and>
    map_of state (a_to args) = Some target \<and>
    to = (if a_to args = a_from args then splice_remove idx source else target) \<and>
    a_beforeId args = Some b \<and> b \<noteq> [] \<and> b \<notin> item_id ` set to"
  then show "moveItem_App state args =
          Inr (AList.update (a_to args) (to @ [source ! idx])
                (AList.update (a_from args) (splice_remove idx source) state))"
    using App_missing_anchor [of state args source idx target to b] by blast
next
  assume "map_of state (a_from args) = Some source \<and>
    findIndex (\<lambda>i. item_id i = a_id args) source = Some idx \<and>
    a_beforeId args = Some [] \<and> \<not> a_toEnd args"
  then show "moveItem_App state args =
          Inr (AList.update (a_from args) (splice_remove idx source) state)"
    using App_no_insertion [of state args source idx] by (simp add: truthy_def)
qed

text \<open>
  Moving \<open>x\<close> from \<open>A\<close> to \<open>B\<close> before an item \<open>q\<close> that \<open>B\<close> does not hold, and, in
  App.tsx, with the empty string as anchor.
\<close>

theorem C5_missing_anchor_witness:
  "findIndex (\<lambda>i. item_id i = ''x'') [item_x, item_y] = Some 0 \<and>
   ''q'' \<notin> item_id ` set [item_z] \<and>
   moveItem_part000 [(''A'', [item_x, item_y]), (''B'', [item_z])]
     \<lparr>d_id = ''x'', d_from = ''A'', d_to = ''B'', d_beforeId = ''q''\<rparr>
   = Inr [(''A'', [item_y]), (''B'', [item_z, item_x])] \<and>
   moveItem_App [(''A'', [item_x, item_y]), (''B'', [item_z])]
     \<lparr>a_id = ''x'', a_from = ''A'', a_to = ''B'', a_beforeId = Some ''q'', a_toEnd = False\<rparr>
   = Inr [(''A'', [item_y]), (''B'', [item_z, item_x])] \<and>
   moveItem_App [(''A'', [item_x, item_y]), (''B'', [item_z])]
     \<lparr>a_id = ''x'', a_from = ''A'', a_to = ''B'', a_beforeId = Some [], a_toEnd = False\<rparr>
   = Inr [(''A'', [item_y]), (''B'', [item_z])]"
  using C5_missing_anchor [of "[(''A'', [item_x, item_y]), (''B'', [item_z])]"
      "\<lparr>d_id = ''x'', d_from = ''A'', d_to = ''B'', d_beforeId = ''q''\<rparr>"
      "[item_x, item_y]" 0 "[item_z]" "[item_z]"
      "\<lparr>a_id = ''x'', a_from = ''A'', a_to = ''B'', a_beforeId = Some ''q'', a_toEnd = False\<rparr>"
      "[item_x, item_y]" 0 "[item_z]" "[item_z]" "''q''"]
    C5_missing_anchor [of "[(''A'', [item_x, item_y]), (''B'', [item_z])]"
      "\<lparr>d_id = ''x'', d_from = ''A'', d_to = ''B'', d_beforeId = ''q''\<rparr>"
      "[item_x, item_y]" 0 "[item_z]" "[item_z]"
      "\<lparr>a_id = ''x'', a_from = ''A'', a_to = ''B'', a_beforeId = Some [], a_toEnd = False\<rparr>"
      "[item_x, item_y]" 0 "[item_z]" "[item_z]" "''q''"]
  by (simp add: splice_remove_def)

text \<open>
  Claim C5 in its original form fails on src/src/App.tsx: the empty string is the id of
  no item of \<open>B\<close>, and the request with it as \<^verbatim>\<open>beforeId\<close> does not append \<open>x\<close> to \<open>B\<close>;
  \<open>x\<close> is in no container of the result.
\<close>

theorem C5_counterexample:
  "[] \<notin> item_id ` set [item_z] \<and>
   moveItem_App [(''A'', [item_x, item_y]), (''B'', [item_z])]
     \<lparr>a_id = ''x'', a_from = ''A'', a_to = ''B'', a_beforeId = Some [], a_toEnd = False\<rparr>
   = Inr [(''A'', [item_y]), (''B'', [item_z])] \<and>
   moveItem_App [(''A'', [item_x, item_y]), (''B'', [item_z])]
     \<lparr>a_id = ''x'', a_from = ''A'', a_to = ''B'', a_beforeId = Some [], a_toEnd = False\<rparr>
   \<noteq> Inr [(''A'', [item_y]), (''B'', [item_z, item_x])]"
  by (simp add: moveItem_App_def Let_def truthy_def splice_remove_def)

text \<open>
  Claim C8, in the form that holds of the code. A request within one container \<open>A\<close>
  whose anchor is the moved item's own id, the item being in \<open>A\<close> and the ids of \<open>A\<close>
  being distinct: in src/unnamed/part_000, for every item id, the anchor is not found
  after the removal and the item is appended, so it becomes the last item of \<open>A\<close>; in
  src/src/App.tsx the same holds for every non-empty item id. For an item whose id is
  the empty string, App.tsx (with no end flag) does not read the anchor: it removes the
  item from \<open>A\<close> and appends it to no sequence.
\<close>

theorem C8_before_itself:
  "(map_of state A = Some xs \<and> distinct (map item_id xs) \<and>
    findIndex (\<lambda>x. item_id x = i) xs = Some idx
    \<longrightarrow> moveItem_part000 state \<lparr>d_id = i, d_from = A, d_to = A, d_beforeId = i\<rparr> =
          Inr (AList.update A (splice_remove idx xs @ [xs ! idx]) state)) \<and>
   (map_of state A = Some xs \<and> distinct (map item_id xs) \<and>
    findIndex (\<lambda>x. item_id x = i) xs = Some idx \<and> i \<noteq> []
    \<longrightarrow> moveItem_App state \<lparr>a_id = i, a_from = A, a_to = A, a_beforeId = Some i, a_toEnd = e\<rparr> =
          Inr (AList.update A (splice_remove idx xs @ [xs ! idx]) state)) \<and>
   (map_of state A = Some ys \<and> findIndex (\<lambda>x. item_id x = []) ys = Some j
    \<longrightarrow> moveItem_App state
            \<lparr>a_id = [], a_from = A, a_to = A, a_beforeId = Some [], a_toEnd = False\<rparr> =
          Inr (AList.update A (splice_remove j ys) state))"
proof (intro conjI impI)
  assume h: "map_of state A = Some xs \<and> distinct (map item_id xs) \<and>
    findIndex (\<lambda>x. item_id x = i) xs = Some idx"
  then have "i \<notin> item_id ` set (splice_remove idx xs)"
    by (simp add: distinct_id_removed)
  with h show "moveItem_part000 state \<lparr>d_id = i, d_from = A, d_to = A, d_beforeId = i\<rparr> =
          Inr (AList.update A (splice_remove idx xs @ [xs ! idx]) state)"
    using part000_missing_anchor [of state "\<lparr>d_id = i, d_from = A, d_to = A, d_beforeId = i\<rparr>"
        xs idx xs "splice_remove idx xs"]
    by simp
next
  assume h: "map_of state A = Some xs \<and> distinct (map item_id xs) \<and>
    findIndex (\<lambda>x. item_id x = i) xs = Some idx \<and> i \<noteq> []"
  then have "i \<notin> item_id ` set (splice_remove idx xs)"
    by (simp add: distinct_id_removed)
  with h show "moveItem_App state \<lparr>a_id = i, a_from = A, a_to = A, a_beforeId = Some i, a_toEnd = e\<rparr> =
          Inr (AList.update A (splice_remove idx xs @ [xs ! idx]) state)"
    using App_missing_anchor [of state "\<lparr>a_id = i, a_from = A, a_to = A, a_beforeId = Some i, a_toEnd = e\<rparr>"
        xs idx xs "splice_remove idx xs" i]
    by simp
next
  assume "map_of state A = Some ys \<and> findIndex (\<lambda>x. item_id x = []) ys = Some j"
  then show "moveItem_App state
            \<lparr>a_id = [], a_from = A, a_to = A, a_beforeId = Some [], a_toEnd = False\<rparr> =
          Inr (AList.update A (splice_remove j ys) state)"
    using App_no_insertion [of state
        "\<lparr>a_id = [], a_from = A, a_to = A, a_beforeId = Some [], a_toEnd = False\<rparr>" ys j]
    by (simp add: truthy_def)
qed

text \<open>
  Moving \<open>x\<close> before itself in \<open>{A: [x, y, z]}\<close> gives \<open>{A: [y, z, x]}\<close>; in App.tsx,
  moving the item with the empty id before itself in \<open>{A: [e, y]}\<close> gives \<open>{A: [y]}\<close>.
\<close>

theorem C8_before_itself_witness:
  "distinct (map item_id [item_x, item_y, item_z]) \<and>
   findIndex (\<lambda>i. item_id i = ''x'') [item_x, item_y, item_z] = Some 0 \<and>
   moveItem_part000 [(''A'', [item_x, item_y, item_z])]
     \<lparr>d_id = ''x'', d_from = ''A'', d_to = ''A'', d_beforeId = ''x''\<rparr>
   = Inr [(''A'', [item_y, item_z, item_x])] \<and>
   moveItem_App [(''A'', [item_x, item_y, item_z])]
     \<lparr>a_id = ''x'', a_from = ''A'', a_to = ''A'', a_beforeId = Some ''x'', a_toEnd = False\<rparr>
   = Inr [(''A'', [item_y, item_z, item_x])] \<and>
   findIndex (\<lambda>i. item_id i = []) [\<lparr>item_id = [], label = ''E''\<rparr>, item_y] = Some 0 \<and>
   moveItem_App [(''A'', [\<lparr>item_id = [], label = ''E''\<rparr>, item_y])]
     \<lparr>a_id = [], a_from = ''A'', a_to = ''A'', a_beforeId = Some [], a_toEnd = False\<rparr>
   = Inr [(''A'', [item_y])]"
  using C8_before_itself [of "[(''A'', [item_x, item_y, item_z])]" "''A''"
      "[item_x, item_y, item_z]" "''x''" 0 False "[item_x, item_y, item_z]" 0]
    C8_before_itself [of "[(''A'', [\<lparr>item_id = [], label = ''E''\<rparr>, item_y])]" "''A''"
      "[\<lparr>item_id = [], label = ''E''\<rparr>, item_y]" "[]" 0 False
      "[\<lparr>item_id = [], label = ''E''\<rparr>, item_y]" 0]
  by (simp add: splice_remove_def)

text \<open>
  Claim C8 in its original form fails on src/src/App.tsx: the item with the empty id,
  moved before itself in \<open>{A: [e, y]}\<close>, is not appended; the result is \<open>{A: [y]}\<close>.
\<close>

theorem C8_counterexample:
  "distinct (map item_id [\<lparr>item_id = [], label = ''E''\<rparr>, item_y]) \<and>
   moveItem_App [(''A'', [\<lparr>item_id = [], label = ''E''\<rparr>, item_y])]
     \<lparr>a_id = [], a_from = ''A'', a_to = ''A'', a_beforeId = Some [], a_toEnd = False\<rparr>
   = Inr [(''A'', [item_y])] \<and>
   moveItem_App [(''A'', [\<lparr>item_id = [], label = ''E''\<rparr>, item_y])]
     \<lparr>a_id = [], a_from = ''A'', a_to = ''A'', a_beforeId = Some [], a_toEnd = False\<rparr>
   \<noteq> Inr [(''A'', [item_y, \<lparr>item_id = [], label = ''E''\<rparr>])]"
  by (simp add: moveItem_App_def Let_def truthy_def splice_remove_def)

section \<open>Moves keep the items of the store\<close>

lemma mset_splice_remove:
  "idx < length xs \<Longrightarrow> add_mset (xs ! idx) (mset (splice_remove idx xs)) = mset xs"
proof -
  assume "idx < length xs"
  then have "xs = take idx xs @ xs ! idx # drop (Suc idx) xs"
    by (rule id_take_nth_drop)
  then have "mset xs = mset (take idx xs @ xs ! idx # drop (Suc idx) xs)"
    by simp
  then show ?thesis
    by (simp add: splice_remove_def)
qed

lemma mset_splice_insert: "mset (splice_insert j x xs) = add_mset x (mset xs)"
proof -
  have "mset (take (min j (length xs)) xs) + mset (drop (min j (length xs)) xs) = mset xs"
    by (metis append_take_drop_id mset_append)
  then show ?thesis
    by (simp add: splice_insert_def)
qed

lemma mset_store_items_update:
  "map_of s k = Some xs \<Longrightarrow>
   mset (store_items (AList.update k ys s)) + mset xs = mset (store_items s) + mset ys"
proof (induction s)
  case Nil
  then show ?case by simp
next
  case (Cons p s)
  show ?case
  proof (cases "fst p = k")
    case True
    with Cons.prems have "snd p = xs" by (cases p) simp
    with True show ?thesis by (simp add: store_items_def)
  next
    case False
    with Cons.prems have "map_of s k = Some xs" by (cases p) simp
    from Cons.IH [OF this] False show ?thesis by (simp add: store_items_def)
  qed
qed

lemma keys_update: "map_of s k = Some xs \<Longrightarrow> map fst (AList.update k ys s) = map fst s"
  by (simp add: update_keys map_of_eq_None_iff [symmetric])

text \<open>Removing an item from one sequence and inserting it into a sequence of the result.\<close>

lemma relocate_items:
  assumes src: "map_of s f = Some source" and idx: "idx < length source"
      and tgt: "map_of (AList.update f (splice_remove idx source) s) t = Some to"
  shows "mset (store_items (AList.update t (splice_insert j (source ! idx) to)
                 (AList.update f (splice_remove idx source) s))) = mset (store_items s)"
    and "map fst (AList.update t (splice_insert j (source ! idx) to)
                 (AList.update f (splice_remove idx source) s)) = map fst s"
proof -
  let ?s1 = "AList.update f (splice_remove idx source) s"
  let ?s2 = "AList.update t (splice_insert j (source ! idx) to) ?s1"
  have 1: "mset (store_items ?s1) + mset source = mset (store_items s) + mset (splice_remove idx source)"
    using src by (rule mset_store_items_update)
  have 2: "mset (store_items ?s2) + mset to = mset (store_items ?s1) + mset (splice_insert j (source ! idx) to)"
    using tgt by (rule mset_store_items_update)
  have "mset (store_items ?s2) + mset to + mset source
        = mset (store_items ?s1) + mset source + add_mset (source ! idx) (mset to)"
    using 2 by (simp add: mset_splice_insert)
  also have "\<dots> = mset (store_items s) + mset (splice_remove idx source) + add_mset (source ! idx) (mset to)"
    using 1 by simp
  also have "\<dots> = mset (store_items s) + mset to + mset source"
    using mset_splice_remove [OF idx] by (metis add.commute add.left_commute union_mset_add_mset_left union_mset_add_mset_right)
  finally show "mset (store_items ?s2) = mset (store_items s)"
    by simp
  show "map fst ?s2 = map fst s"
    using src tgt by (simp add: keys_update)
qed

lemma part000_Inr_cases:
  assumes res: "moveItem_part000 s a = Inr s'"
  obtains source idx to j where
    "map_of s (d_from a) = Some source" and "findIndex (\<lambda>i. item_id i = d_id a) source = Some idx"
    and "map_of (AList.update (d_from a) (splice_remove idx source) s) (d_to a) = Some to"
    and "s' = AList.update (d_to a) (splice_insert j (source ! idx) to)
                (AList.update (d_from a) (splice_remove idx source) s)"
proof -
  from res obtain source where src: "map_of s (d_from a) = Some source"
    by (cases "map_of s (d_from a)") (simp_all add: moveItem_part000_def)
  from res src obtain idx where idx: "findIndex (\<lambda>i. item_id i = d_id a) source = Some idx"
    by (cases "findIndex (\<lambda>i. item_id i = d_id a) source") (simp_all add: moveItem_part000_def)
  let ?s1 = "AList.update (d_from a) (splice_remove idx source) s"
  from res src idx obtain to where to: "map_of ?s1 (d_to a) = Some to"
    by (cases "map_of ?s1 (d_to a)") (simp_all add: moveItem_part000_def Let_def)
  from res src idx to have "\<exists>j. s' = AList.update (d_to a) (splice_insert j (source ! idx) to) ?s1"
    by (cases "d_beforeId a = ''last''")
      (auto simp: moveItem_part000_def Let_def push_def intro: exI [of _ "length to"])
  with src idx to that show thesis by blast
qed

lemma App_Inr_cases:
  assumes res: "moveItem_App s a = Inr s'" and shaped: "drop_shaped a"
  obtains "s' = s"
  | source idx to j where
    "map_of s (a_from a) = Some source" and "findIndex (\<lambda>i. item_id i = a_id a) source = Some idx"
    and "map_of (AList.update (a_from a) (splice_remove idx source) s) (a_to a) = Some to"
    and "s' = AList.update (a_to a) (splice_insert j (source ! idx) to)
                (AList.update (a_from a) (splice_remove idx source) s)"
proof -
  from res obtain source where src: "map_of s (a_from a) = Some source"
    by (cases "map_of s (a_from a)") (simp_all add: moveItem_App_def)
  show thesis
  proof (cases "findIndex (\<lambda>i. item_id i = a_id a) source")
    case None
    with res src have "s' = s" by (simp add: moveItem_App_def)
    then show thesis by (rule that(1))
  next
    case (Some idx)
    let ?s1 = "AList.update (a_from a) (splice_remove idx source) s"
    from res src Some shaped obtain to where to: "map_of ?s1 (a_to a) = Some to"
      by (cases "map_of ?s1 (a_to a)")
        (auto simp: moveItem_App_def Let_def drop_shaped_def split: if_splits)
    from res src Some to shaped
    have "\<exists>j. s' = AList.update (a_to a) (splice_insert j (source ! idx) to) ?s1"
      by (cases "a_toEnd a")
        (auto simp: moveItem_App_def Let_def push_def drop_shaped_def
          intro: exI [of _ "length to"])
    with src Some to that(2) show thesis by blast
  qed
qed

lemma part000_keeps_items:
  assumes "moveItem_part000 s a = Inr s'"
  shows "mset (store_items s') = mset (store_items s) \<and> map fst s' = map fst s"
  using assms
proof (rule part000_Inr_cases)
  fix source idx to j
  assume "map_of s (d_from a) = Some source" and "findIndex (\<lambda>i. item_id i = d_id a) source = Some idx"
    and "map_of (AList.update (d_from a) (splice_remove idx source) s) (d_to a) = Some to"
    and "s' = AList.update (d_to a) (splice_insert j (source ! idx) to)
                (AList.update (d_from a) (splice_remove idx source) s)"
  then show ?thesis
    using relocate_items [of s "d_from a" source idx "d_to a" to j]
    by (simp add: findIndex_Some_iff)
qed

lemma App_keeps_items:
  assumes "moveItem_App s a = Inr s'" and "drop_shaped a"
  shows "mset (store_items s') = mset (store_items s) \<and> map fst s' = map fst s"
  using assms
proof (rule App_Inr_cases)
  assume "s' = s"
  then show ?thesis by simp
next
  fix source idx to j
  assume "map_of s (a_from a) = Some source" and "findIndex (\<lambda>i. item_id i = a_id a) source = Some idx"
    and "map_of (AList.update (a_from a) (splice_remove idx source) s) (a_to a) = Some to"
    and "s' = AList.update (a_to a) (splice_insert j (source ! idx) to)
                (AList.update (a_from a) (splice_remove idx source) s)"
  then show ?thesis
    using relocate_items [of s "a_from a" source idx "a_to a" to j]
    by (simp add: findIndex_Some_iff)
qed

lemma unique_ids_mset:
  assumes "unique_ids s" and "mset (store_items s') = mset (store_items s)" and "map fst s' = map fst s"
  shows "unique_ids s'"
proof -
  have "mset (store_ids s') = mset (store_ids s)"
    using assms(2) by (metis store_ids_def mset_map)
  then have "distinct (store_ids s') = distinct (store_ids s)"
    by (rule mset_eq_imp_distinct_iff)
  with assms show ?thesis by (simp add: unique_ids_def)
qed


lemma map_of_store_items: "map_of s k = Some xs \<Longrightarrow> set xs \<subseteq> set (store_items s)"
  by (force simp: store_items_def dest!: map_of_SomeD)

lemma unique_ids_sequence:
  assumes "unique_ids s" and "map_of s k = Some xs"
  shows "distinct (map item_id xs)"
proof -
  from assms(2) have "(k, xs) \<in> set s" by (rule map_of_SomeD)
  then obtain pre post where "s = pre @ (k, xs) # post" by (auto dest: split_list)
  with assms(1) show ?thesis
    by (simp add: unique_ids_def store_ids_def store_items_def)
qed

lemma unique_ids_one_container:
  "unique_ids s \<Longrightarrow> map_of s k = Some xs \<Longrightarrow> map_of s k' = Some xs' \<Longrightarrow>
   i \<in> item_id ` set xs \<Longrightarrow> i \<in> item_id ` set xs' \<Longrightarrow> k = k'"
proof (induction s)
  case Nil
  then show ?case by simp
next
  case (Cons p s)
  obtain kp vp where p: "p = (kp, vp)" by (cases p)
  from Cons.prems(1) p have u: "unique_ids s"
    and disj: "item_id ` set vp \<inter> item_id ` set (store_items s) = {}"
    by (auto simp: unique_ids_def store_ids_def store_items_def)
  show ?case
  proof (rule ccontr)
    assume ne: "k \<noteq> k'"
    consider "kp = k" | "kp = k'" | "kp \<noteq> k" "kp \<noteq> k'" by blast
    then show False
    proof cases
      case 1
      with Cons.prems p ne have "vp = xs" and "map_of s k' = Some xs'" by auto
      with disj Cons.prems(4,5) map_of_store_items [of s k' xs'] show False by blast
    next
      case 2
      with Cons.prems p ne have "vp = xs'" and "map_of s k = Some xs" by auto
      with disj Cons.prems(4,5) map_of_store_items [of s k xs] show False by blast
    next
      case 3
      with Cons.prems p have "map_of s k = Some xs" and "map_of s k' = Some xs'" by auto
      with Cons.IH u Cons.prems(4,5) ne show False by blast
    qed
  qed
qed

lemma store_ids_initial: "store_ids initialColumns = [''t1'', ''t2'', ''d1'', ''d2'', ''dn1'']"
  by (simp add: store_ids_def store_items_def initialColumns_def)

lemma reachable_part000_items:
  "reachable_part000 s \<Longrightarrow>
   mset (store_items s) = mset (store_items initialColumns) \<and> map fst s = map fst initialColumns"
proof (induction rule: reachable_part000.induct)
  case init
  show ?case by simp
next
  case (item_drop s k xs t data a s')
  with part000_keeps_items [of s a s'] show ?case by simp
next
  case (column_drop s k xs data a s')
  with part000_keeps_items [of s a s'] show ?case by simp
qed

lemma reachable_App_items:
  "reachable_App s \<Longrightarrow>
   mset (store_items s) = mset (store_items initialColumns) \<and> map fst s = map fst initialColumns"
proof (induction rule: reachable_App.induct)
  case init
  show ?case by simp
next
  case (item_drop s k xs t data a s')
  from item_drop.hyps(2,3) have "t \<in> set (store_items s)"
    by (force simp: store_items_def)
  then have "t \<in># mset (store_items initialColumns)"
    using item_drop.IH by (metis set_mset_mset)
  then have "item_id t \<noteq> []"
    by (auto simp: store_items_def initialColumns_def)
  with item_drop.hyps(4) have "drop_shaped a"
    by (auto simp: DraggableItem_onDrop_App_def drop_shaped_def truthy_def
        split: option.splits if_splits)
  with item_drop App_keeps_items [of s a s'] show ?case by simp
next
  case (column_drop s k xs data a s')
  from column_drop.hyps(3) have "drop_shaped a"
    by (auto simp: Column_onDrop_App_def drop_shaped_def split: option.splits if_splits)
  with column_drop App_keeps_items [of s a s'] show ?case by simp
qed

lemma unique_ids_initial: "unique_ids initialColumns"
  by (simp add: unique_ids_def store_ids_initial) (simp add: initialColumns_def)

lemma mset_store_ids: "mset (store_items s') = mset (store_items s) \<Longrightarrow> mset (store_ids s') = mset (store_ids s)"
  by (metis store_ids_def mset_map)

text \<open>
  Claim C4. Every snapshot the orchestrator can reach from the initial layout by drops,
  in either file, has each container key once and no item id twice in the whole store,
  and holds the ids of the initial layout, each once. Every call of \<open>moveItem\<close> that
  returns a snapshot (in src/src/App.tsx: for a request with the end flag or a non-empty
  anchor id) keeps the invariant and the ids. In a store with the invariant the ids of
  one sequence are distinct and an id is in the sequence of one container only.
\<close>

theorem C4_uniqueness:
  "(reachable_part000 s \<longrightarrow> unique_ids s \<and> mset (store_ids s) = mset (store_ids initialColumns)) \<and>
   (reachable_App s \<longrightarrow> unique_ids s \<and> mset (store_ids s) = mset (store_ids initialColumns)) \<and>
   (unique_ids s \<and> moveItem_part000 s dargs = Inr s'
      \<longrightarrow> unique_ids s' \<and> mset (store_ids s') = mset (store_ids s)) \<and>
   (unique_ids s \<and> drop_shaped args \<and> moveItem_App s args = Inr s''
      \<longrightarrow> unique_ids s'' \<and> mset (store_ids s'') = mset (store_ids s)) \<and>
   (unique_ids s \<and> map_of s k = Some xs \<longrightarrow> distinct (map item_id xs)) \<and>
   (unique_ids s \<and> map_of s k = Some xs \<and> map_of s k' = Some xs' \<and>
    i \<in> item_id ` set xs \<and> i \<in> item_id ` set xs' \<longrightarrow> k = k')"
proof (intro conjI impI)
  assume "reachable_part000 s"
  then have "mset (store_items s) = mset (store_items initialColumns) \<and> map fst s = map fst initialColumns"
    by (rule reachable_part000_items)
  then show "unique_ids s" and "mset (store_ids s) = mset (store_ids initialColumns)"
    using unique_ids_mset [OF unique_ids_initial, of s] mset_store_ids [of s initialColumns]
    by blast+
next
  assume "reachable_App s"
  then have "mset (store_items s) = mset (store_items initialColumns) \<and> map fst s = map fst initialColumns"
    by (rule reachable_App_items)
  then show "unique_ids s" and "mset (store_ids s) = mset (store_ids initialColumns)"
    using unique_ids_mset [OF unique_ids_initial, of s] mset_store_ids [of s initialColumns]
    by blast+
next
  assume h: "unique_ids s \<and> moveItem_part000 s dargs = Inr s'"
  then have "mset (store_items s') = mset (store_items s) \<and> map fst s' = map fst s"
    using part000_keeps_items [of s dargs s'] by simp
  with h show "unique_ids s'" and "mset (store_ids s') = mset (store_ids s)"
    using unique_ids_mset [of s s'] mset_store_ids [of s' s] by blast+
next
  assume h: "unique_ids s \<and> drop_shaped args \<and> moveItem_App s args = Inr s''"
  then have "mset (store_items s'') = mset (store_items s) \<and> map fst s'' = map fst s"
    using App_keeps_items [of s args s''] by simp
  with h show "unique_ids s''" and "mset (store_ids s'') = mset (store_ids s)"
    using unique_ids_mset [of s s''] mset_store_ids [of s'' s] by blast+
next
  assume "unique_ids s \<and> map_of s k = Some xs"
  then show "distinct (map item_id xs)" using unique_ids_sequence by blast
next
  assume "unique_ids s \<and> map_of s k = Some xs \<and> map_of s k' = Some xs' \<and>
    i \<in> item_id ` set xs \<and> i \<in> item_id ` set xs'"
  then show "k = k'" using unique_ids_one_container [of s k xs k' xs' i] by blast
qed

text \<open>
  The snapshot after the drop of \<open>t1\<close> on column \<open>b2\<close> is reachable in both files; the
  drop of \<open>t2\<close> on the item \<open>t1\<close> leads from it to the next one.
\<close>

theorem C4_uniqueness_witness:
  "reachable_part000 columns_1 \<and> reachable_App columns_1 \<and>
   unique_ids columns_1 \<and> mset (store_ids columns_1) = mset (store_ids initialColumns) \<and>
   moveItem_part000 columns_1
     \<lparr>d_id = ''t2'', d_from = ''a1'', d_to = ''b2'', d_beforeId = ''t1''\<rparr> = Inr columns_2 \<and>
   drop_shaped \<lparr>a_id = ''t2'', a_from = ''a1'', a_to = ''b2'', a_beforeId = Some ''t1'', a_toEnd = False\<rparr> \<and>
   moveItem_App columns_1
     \<lparr>a_id = ''t2'', a_from = ''a1'', a_to = ''b2'', a_beforeId = Some ''t1'', a_toEnd = False\<rparr>
     = Inr columns_2 \<and>
   unique_ids columns_2 \<and> mset (store_ids columns_2) = mset (store_ids columns_1) \<and>
   map_of columns_1 ''b2'' = Some [item_t1] \<and> distinct (map item_id [item_t1])"
proof -
  have r1: "reachable_part000 columns_1"
    by (rule reachable_part000.column_drop [OF reachable_part000.init,
          of "''b2''" "[]" "Some (getInitialData item_t1 ''a1'')"
             "\<lparr>d_id = ''t1'', d_from = ''a1'', d_to = ''b2'', d_beforeId = ''last''\<rparr>"])
      (simp_all add: initialColumns_def Column_onDrop_part000_def getInitialData_def
        moveItem_part000_def Let_def splice_remove_def push_def)
  have r2: "reachable_App columns_1"
    by (rule reachable_App.column_drop [OF reachable_App.init,
          of "''b2''" "[]" "Some (getInitialData item_t1 ''a1'')"
             "\<lparr>a_id = ''t1'', a_from = ''a1'', a_to = ''b2'', a_beforeId = None, a_toEnd = True\<rparr>"])
      (simp_all add: initialColumns_def Column_onDrop_App_def getInitialData_def
        moveItem_App_def Let_def splice_remove_def push_def)
  have m1: "moveItem_part000 columns_1
     \<lparr>d_id = ''t2'', d_from = ''a1'', d_to = ''b2'', d_beforeId = ''t1''\<rparr> = Inr columns_2"
    by (simp add: moveItem_part000_def Let_def splice_remove_def splice_insert_def)
  have m2: "moveItem_App columns_1
     \<lparr>a_id = ''t2'', a_from = ''a1'', a_to = ''b2'', a_beforeId = Some ''t1'', a_toEnd = False\<rparr>
     = Inr columns_2"
    by (simp add: moveItem_App_def Let_def truthy_def splice_remove_def splice_insert_def)
  have d: "drop_shaped \<lparr>a_id = ''t2'', a_from = ''a1'', a_to = ''b2'', a_beforeId = Some ''t1'', a_toEnd = False\<rparr>"
    by (simp add: drop_shaped_def truthy_def)
  show ?thesis
    using r1 r2 m1 m2 d
      C4_uniqueness [of columns_1
        "\<lparr>d_id = ''t2'', d_from = ''a1'', d_to = ''b2'', d_beforeId = ''t1''\<rparr>" columns_2
        "\<lparr>a_id = ''t2'', a_from = ''a1'', a_to = ''b2'', a_beforeId = Some ''t1'', a_toEnd = False\<rparr>"
        columns_2 "''b2''" "[item_t1]" "''b2''" "[item_t1]" "''t1''"]
    by simp
qed

section \<open>Requests without an insertion point, and container keys\<close>

lemma removal_loses_item:
  assumes "map_of state k = Some source" and "idx < length source"
  shows "add_mset (source ! idx) (mset (store_items (AList.update k (splice_remove idx source) state)))
         = mset (store_items state)"
proof -
  have "mset (store_items (AList.update k (splice_remove idx source) state)) + mset source
        = mset (store_items state) + mset (splice_remove idx source)"
    using assms(1) by (rule mset_store_items_update)
  moreover have "mset source = add_mset (source ! idx) (mset (splice_remove idx source))"
    using mset_splice_remove [OF assms(2)] by simp
  ultimately show ?thesis by simp
qed

text \<open>
  Claim C9. In src/src/App.tsx, for a request with neither the end flag nor a truthy
  \<^verbatim>\<open>beforeId\<close> (absent, or the empty string) whose item is in the source container,
  \<open>moveItem\<close> returns the snapshot with the item removed from the source sequence and
  every other sequence as it was: no sequence receives the item. When the snapshot had
  the uniqueness invariant, the item's id is then nowhere in the returned store, which
  has one id fewer.
\<close>

theorem C9_item_vanishes:
  "map_of state (a_from args) = Some source \<and>
   findIndex (\<lambda>i. item_id i = a_id args) source = Some idx \<and>
   \<not> a_toEnd args \<and> \<not> truthy (a_beforeId args)
   \<longrightarrow> moveItem_App state args =
         Inr (AList.update (a_from args) (splice_remove idx source) state) \<and>
       add_mset (a_id args)
         (mset (store_ids (AList.update (a_from args) (splice_remove idx source) state)))
         = mset (store_ids state) \<and>
       (unique_ids state \<longrightarrow>
          a_id args \<notin> set (store_ids (AList.update (a_from args) (splice_remove idx source) state)))"
proof (intro impI, elim conjE)
  let ?s' = "AList.update (a_from args) (splice_remove idx source) state"
  assume src: "map_of state (a_from args) = Some source"
    and idx: "findIndex (\<lambda>i. item_id i = a_id args) source = Some idx"
    and ne: "\<not> a_toEnd args" and nb: "\<not> truthy (a_beforeId args)"
  from idx have lt: "idx < length source" and id: "item_id (source ! idx) = a_id args"
    by (simp_all add: findIndex_Some_iff)
  have res: "moveItem_App state args = Inr ?s'"
    using src idx ne nb by (rule App_no_insertion)
  have "image_mset item_id (add_mset (source ! idx) (mset (store_items ?s')))
        = image_mset item_id (mset (store_items state))"
    using removal_loses_item [OF src lt] by simp
  then have ids: "add_mset (a_id args) (mset (store_ids ?s')) = mset (store_ids state)"
    using id by (simp add: store_ids_def)
  have gone: "a_id args \<notin> set (store_ids ?s')" if "unique_ids state"
  proof
    assume "a_id args \<in> set (store_ids ?s')"
    then have "count (mset (store_ids ?s')) (a_id args) \<ge> 1"
      by (simp add: count_greater_eq_one_iff)
    then have "count (add_mset (a_id args) (mset (store_ids ?s'))) (a_id args) \<ge> 2"
      by simp
    with ids have "count (mset (store_ids state)) (a_id args) \<ge> 2" by simp
    moreover from that have "count (mset (store_ids state)) (a_id args) \<le> 1"
      by (simp add: unique_ids_def distinct_count_atmost_1)
    ultimately show False by simp
  qed
  from res ids gone show "moveItem_App state args = Inr ?s' \<and>
       add_mset (a_id args) (mset (store_ids ?s')) = mset (store_ids state) \<and>
       (unique_ids state \<longrightarrow> a_id args \<notin> set (store_ids ?s'))"
    by blast
qed

text \<open>
  A request for \<open>x\<close> from \<open>A\<close> to \<open>B\<close> with an empty \<^verbatim>\<open>beforeId\<close> and no end flag:
  \<open>x\<close> is in no container of the result.
\<close>

theorem C9_item_vanishes_witness:
  "findIndex (\<lambda>i. item_id i = ''x'') [item_x, item_y] = Some 0 \<and>
   \<not> truthy (Some []) \<and>
   unique_ids [(''A'', [item_x, item_y]), (''B'', [item_z])] \<and>
   moveItem_App [(''A'', [item_x, item_y]), (''B'', [item_z])]
     \<lparr>a_id = ''x'', a_from = ''A'', a_to = ''B'', a_beforeId = Some [], a_toEnd = False\<rparr>
   = Inr [(''A'', [item_y]), (''B'', [item_z])] \<and>
   ''x'' \<notin> set (store_ids [(''A'', [item_y]), (''B'', [item_z])])"
  using C9_item_vanishes [of "[(''A'', [item_x, item_y]), (''B'', [item_z])]"
      "\<lparr>a_id = ''x'', a_from = ''A'', a_to = ''B'', a_beforeId = Some [], a_toEnd = False\<rparr>"
      "[item_x, item_y]" 0]
  by (simp add: splice_remove_def truthy_def unique_ids_def store_ids_def store_items_def)

lemma App_total:
  assumes "a_from args \<in> fst ` set state" and "a_to args \<in> fst ` set state"
  shows "\<exists>s'. moveItem_App state args = Inr s'"
proof -
  from assms(1) obtain source where src: "map_of state (a_from args) = Some source"
    by (metis map_of_eq_None_iff not_Some_eq)
  show ?thesis
  proof (cases "findIndex (\<lambda>i. item_id i = a_id args) source")
    case None
    with src show ?thesis by (simp add: moveItem_App_def)
  next
    case (Some idx)
    from assms(2) have "a_to args \<in> fst ` set (AList.update (a_from args) (splice_remove idx source) state)"
      by (simp add: dom_update)
    then obtain to where
      "map_of (AList.update (a_from args) (splice_remove idx source) state) (a_to args) = Some to"
      by (metis map_of_eq_None_iff not_Some_eq)
    with src Some show ?thesis by (simp add: moveItem_App_def Let_def)
  qed
qed

lemma part000_no_TypeError:
  assumes "d_from args \<in> fst ` set state" and "d_to args \<in> fst ` set state"
  shows "moveItem_part000 state args \<noteq> Inl TypeError"
proof -
  from assms(1) obtain source where src: "map_of state (d_from args) = Some source"
    by (metis map_of_eq_None_iff not_Some_eq)
  show ?thesis
  proof (cases "findIndex (\<lambda>i. item_id i = d_id args) source")
    case None
    with src show ?thesis by (simp add: moveItem_part000_def)
  next
    case (Some idx)
    from assms(2) have "d_to args \<in> fst ` set (AList.update (d_from args) (splice_remove idx source) state)"
      by (simp add: dom_update)
    then obtain to where
      "map_of (AList.update (d_from args) (splice_remove idx source) state) (d_to args) = Some to"
      by (metis map_of_eq_None_iff not_Some_eq)
    with src Some show ?thesis by (simp add: moveItem_part000_def Let_def)
  qed
qed

lemma findIndex_present:
  "i \<in> item_id ` set xs \<Longrightarrow> \<exists>idx. findIndex (\<lambda>x. item_id x = i) xs = Some idx"
  by (cases "findIndex (\<lambda>x. item_id x = i) xs") (auto simp: findIndex_None_iff)

lemma target_absent_after_removal:
  assumes "k \<notin> fst ` set state" and "map_of state f = Some source"
  shows "map_of (AList.update f ys state) k = None"
proof -
  from assms have "k \<noteq> f" by (metis map_of_eq_None_iff option.distinct(1))
  with assms(1) show ?thesis by (simp add: update_conv' map_of_eq_None_iff)
qed

lemma App_target_absent:
  assumes "map_of state (a_from args) = Some source" and "a_id args \<in> item_id ` set source"
      and "a_to args \<notin> fst ` set state" and "a_toEnd args \<or> truthy (a_beforeId args)"
  shows "moveItem_App state args = Inl TypeError"
proof -
  from assms(2) obtain idx where "findIndex (\<lambda>x. item_id x = a_id args) source = Some idx"
    using findIndex_present by blast
  with assms(1,4) target_absent_after_removal [OF assms(3) assms(1)] show ?thesis
    by (auto simp: moveItem_App_def Let_def)
qed

lemma part000_target_absent:
  assumes "map_of state (d_from args) = Some source" and "d_id args \<in> item_id ` set source"
      and "d_to args \<notin> fst ` set state"
  shows "moveItem_part000 state args = Inl TypeError"
proof -
  from assms(2) obtain idx where "findIndex (\<lambda>x. item_id x = d_id args) source = Some idx"
    using findIndex_present by blast
  with assms(1) target_absent_after_removal [OF assms(3) assms(1)] show ?thesis
    by (auto simp: moveItem_part000_def Let_def)
qed

text \<open>
  Claim C10. \<open>moveItem\<close> reads the two containers with no check of the keys. When both
  keys are keys of the snapshot, \<open>moveItem\<close> of src/src/App.tsx returns a snapshot and
  \<open>moveItem\<close> of src/unnamed/part_000 throws no \<^verbatim>\<open>TypeError\<close>. When the source key is
  absent, both throw a \<^verbatim>\<open>TypeError\<close>. When the source holds the item and the target key
  is absent, part_000 throws a \<^verbatim>\<open>TypeError\<close>, and App.tsx does for every request with
  the end flag or a truthy \<^verbatim>\<open>beforeId\<close>.
\<close>

theorem C10_container_keys:
  "(a_from args \<in> fst ` set state \<and> a_to args \<in> fst ` set state
      \<longrightarrow> (\<exists>s'. moveItem_App state args = Inr s')) \<and>
   (d_from dargs \<in> fst ` set state \<and> d_to dargs \<in> fst ` set state
      \<longrightarrow> moveItem_part000 state dargs \<noteq> Inl TypeError) \<and>
   (a_from args \<notin> fst ` set state \<longrightarrow> moveItem_App state args = Inl TypeError) \<and>
   (d_from dargs \<notin> fst ` set state \<longrightarrow> moveItem_part000 state dargs = Inl TypeError) \<and>
   (map_of state (a_from args) = Some source \<and> a_id args \<in> item_id ` set source \<and>
    a_to args \<notin> fst ` set state \<and> (a_toEnd args \<or> truthy (a_beforeId args))
      \<longrightarrow> moveItem_App state args = Inl TypeError) \<and>
   (map_of state (d_from dargs) = Some dsource \<and> d_id dargs \<in> item_id ` set dsource \<and>
    d_to dargs \<notin> fst ` set state
      \<longrightarrow> moveItem_part000 state dargs = Inl TypeError)"
proof (intro conjI impI)
  assume "a_from args \<in> fst ` set state \<and> a_to args \<in> fst ` set state"
  then show "\<exists>s'. moveItem_App state args = Inr s'" by (simp add: App_total)
next
  assume "d_from dargs \<in> fst ` set state \<and> d_to dargs \<in> fst ` set state"
  then show "moveItem_part000 state dargs \<noteq> Inl TypeError" by (simp add: part000_no_TypeError)
next
  assume "a_from args \<notin> fst ` set state"
  then have "map_of state (a_from args) = None" by (simp add: map_of_eq_None_iff)
  then show "moveItem_App state args = Inl TypeError" by (simp add: moveItem_App_def)
next
  assume "d_from dargs \<notin> fst ` set state"
  then have "map_of state (d_from dargs) = None" by (simp add: map_of_eq_None_iff)
  then show "moveItem_part000 state dargs = Inl TypeError" by (simp add: moveItem_part000_def)
next
  assume "map_of state (a_from args) = Some source \<and> a_id args \<in> item_id ` set source \<and>
    a_to args \<notin> fst ` set state \<and> (a_toEnd args \<or> truthy (a_beforeId args))"
  then show "moveItem_App state args = Inl TypeError"
    using App_target_absent [of state args source] by blast
next
  assume "map_of state (d_from dargs) = Some dsource \<and> d_id dargs \<in> item_id ` set dsource \<and>
    d_to dargs \<notin> fst ` set state"
  then show "moveItem_part000 state dargs = Inl TypeError"
    using part000_target_absent [of state dargs dsource] by blast
qed

text \<open>
  In \<open>{A: [x, y], B: [z]}\<close>: a move of \<open>x\<close> from \<open>A\<close> to \<open>B\<close> returns; a move from the
  absent container \<open>C\<close> throws; a move of \<open>x\<close> from \<open>A\<close> to the absent container \<open>C\<close>
  throws.
\<close>

theorem C10_container_keys_witness:
  "''A'' \<in> fst ` set [(''A'', [item_x, item_y]), (''B'', [item_z])] \<and>
   ''B'' \<in> fst ` set [(''A'', [item_x, item_y]), (''B'', [item_z])] \<and>
   ''C'' \<notin> fst ` set [(''A'', [item_x, item_y]), (''B'', [item_z])] \<and>
   ''x'' \<in> item_id ` set [item_x, item_y] \<and>
   (\<exists>s'. moveItem_App [(''A'', [item_x, item_y]), (''B'', [item_z])]
      \<lparr>a_id = ''x'', a_from = ''A'', a_to = ''B'', a_beforeId = Some ''z'', a_toEnd = False\<rparr> = Inr s') \<and>
   moveItem_part000 [(''A'', [item_x, item_y]), (''B'', [item_z])]
      \<lparr>d_id = ''x'', d_from = ''A'', d_to = ''B'', d_beforeId = ''z''\<rparr> \<noteq> Inl TypeError \<and>
   moveItem_App [(''A'', [item_x, item_y]), (''B'', [item_z])]
      \<lparr>a_id = ''x'', a_from = ''C'', a_to = ''B'', a_beforeId = Some ''z'', a_toEnd = False\<rparr> = Inl TypeError \<and>
   moveItem_part000 [(''A'', [item_x, item_y]), (''B'', [item_z])]
      \<lparr>d_id = ''x'', d_from = ''C'', d_to = ''B'', d_beforeId = ''z''\<rparr> = Inl TypeError \<and>
   moveItem_App [(''A'', [item_x, item_y]), (''B'', [item_z])]
      \<lparr>a_id = ''x'', a_from = ''A'', a_to = ''C'', a_beforeId = Some ''z'', a_toEnd = False\<rparr> = Inl TypeError \<and>
   moveItem_part000 [(''A'', [item_x, item_y]), (''B'', [item_z])]
      \<lparr>d_id = ''x'', d_from = ''A'', d_to = ''C'', d_beforeId = ''z''\<rparr> = Inl TypeError"
  using
    C10_container_keys [of
      "\<lparr>a_id = ''x'', a_from = ''A'', a_to = ''B'', a_beforeId = Some ''z'', a_toEnd = False\<rparr>"
      "[(''A'', [item_x, item_y]), (''B'', [item_z])]"
      "\<lparr>d_id = ''x'', d_from = ''A'', d_to = ''B'', d_beforeId = ''z''\<rparr>"
      "[item_x, item_y]" "[item_x, item_y]"]
    C10_container_keys [of
      "\<lparr>a_id = ''x'', a_from = ''C'', a_to = ''B'', a_beforeId = Some ''z'', a_toEnd = False\<rparr>"
      "[(''A'', [item_x, item_y]), (''B'', [item_z])]"
      "\<lparr>d_id = ''x'', d_from = ''C'', d_to = ''B'', d_beforeId = ''z''\<rparr>"
      "[]" "[]"]
    C10_container_keys [of
      "\<lparr>a_id = ''x'', a_from = ''A'', a_to = ''C'', a_beforeId = Some ''z'', a_toEnd = False\<rparr>"
      "[(''A'', [item_x, item_y]), (''B'', [item_z])]"
      "\<lparr>d_id = ''x'', d_from = ''A'', d_to = ''C'', d_beforeId = ''z''\<rparr>"
      "[item_x, item_y]" "[item_x, item_y]"]
  by (simp add: truthy_def)

section \<open>The column defers to an item that signals intent\<close>

lemma hasDropIntent_iff:
  "hasDropIntent cs \<longleftrightarrow> (\<exists>c\<in>set cs. isHTMLElement c \<and> hasAttribute c ''data-drop-intent'')"
  by (induction cs) auto

lemma onDragEnter_marks:
  "is_item_drag data \<Longrightarrow> hasAttribute (DraggableItem_onDragEnter data c) ''data-drop-intent''"
  by (simp add: DraggableItem_onDragEnter_def hasAttribute_def setAttribute_def dom_update)

lemma onDragEnter_isHTMLElement:
  "isHTMLElement (DraggableItem_onDragEnter data c) = isHTMLElement c"
  by (simp add: DraggableItem_onDragEnter_def setAttribute_def)

text \<open>
  Claim C7. In src/unnamed/part_000 the column's \<^verbatim>\<open>canDrop\<close> accepts a payload exactly
  when it is an item drag and no child element carries the attribute
  \<^verbatim>\<open>data-drop-intent\<close>; so it returns false for every payload whenever some child
  \<^verbatim>\<open>HTMLElement\<close> carries the marker, as the element of an item does after its
  \<^verbatim>\<open>onDragEnter\<close> for an item drag. A drop of an item drag inside the region of an item,
  with the marker on a child of the column's element, then produces one request, the one
  of the item's target (insert before that item).
\<close>

theorem C7_conflict_resolution:
  "((\<exists>c\<in>set (children element). isHTMLElement c \<and> hasAttribute c ''data-drop-intent'')
      \<longrightarrow> \<not> Column_canDrop_part000 data element) \<and>
   (Column_canDrop_part000 data element \<longleftrightarrow>
      is_item_drag data \<and>
      \<not> (\<exists>c\<in>set (children element). isHTMLElement c \<and> hasAttribute c ''data-drop-intent'')) \<and>
   (is_item_drag data \<and> isHTMLElement c \<and>
    DraggableItem_onDragEnter data c \<in> set (children element)
      \<longrightarrow> \<not> Column_canDrop_part000 data element) \<and>
   (dd_type d = ''item'' \<and>
    (\<exists>c\<in>set (children element). isHTMLElement c \<and> hasAttribute c ''data-drop-intent'')
      \<longrightarrow> drop_in_item_region (Some d) item containerId element =
            [\<lparr>d_id = itemId d, d_from = fromContainerId d, d_to = containerId,
              d_beforeId = item_id item\<rparr>])"
proof (intro conjI impI)
  assume "\<exists>c\<in>set (children element). isHTMLElement c \<and> hasAttribute c ''data-drop-intent''"
  then show "\<not> Column_canDrop_part000 data element"
    by (simp add: Column_canDrop_part000_def hasDropIntent_iff)
next
  show "Column_canDrop_part000 data element \<longleftrightarrow>
      is_item_drag data \<and>
      \<not> (\<exists>c\<in>set (children element). isHTMLElement c \<and> hasAttribute c ''data-drop-intent'')"
    by (simp add: Column_canDrop_part000_def hasDropIntent_iff)
next
  assume h: "is_item_drag data \<and> isHTMLElement c \<and>
    DraggableItem_onDragEnter data c \<in> set (children element)"
  then have "isHTMLElement (DraggableItem_onDragEnter data c) \<and>
             hasAttribute (DraggableItem_onDragEnter data c) ''data-drop-intent''"
    by (simp add: onDragEnter_marks onDragEnter_isHTMLElement)
  with h have "hasDropIntent (children element)"
    unfolding hasDropIntent_iff by blast
  then show "\<not> Column_canDrop_part000 data element"
    by (simp add: Column_canDrop_part000_def)
next
  assume h: "dd_type d = ''item'' \<and>
    (\<exists>c\<in>set (children element). isHTMLElement c \<and> hasAttribute c ''data-drop-intent'')"
  then have "hasDropIntent (children element)" by (simp add: hasDropIntent_iff)
  with h show "drop_in_item_region (Some d) item containerId element =
            [\<lparr>d_id = itemId d, d_from = fromContainerId d, d_to = containerId,
              d_beforeId = item_id item\<rparr>]"
    by (simp add: drop_in_item_region_def DraggableItem_canDrop_def is_item_drag_def
        DraggableItem_onDrop_part000_def Column_canDrop_part000_def)
qed

text \<open>
  A column element with two item elements, the second with the marker set by
  \<^verbatim>\<open>onDragEnter\<close>: the column refuses the drag of \<open>t1\<close>, and the drop on \<open>t2\<close> gives the
  one request that inserts \<open>t1\<close> before \<open>t2\<close>.
\<close>

theorem C7_conflict_resolution_witness:
  "is_item_drag (Some (getInitialData item_t1 ''a1'')) \<and>
   DraggableItem_onDragEnter (Some (getInitialData item_t1 ''a1'')) (Element True [(''role'', ''listitem'')] [])
     = Element True [(''role'', ''listitem''), (''data-drop-intent'', ''before'')] [] \<and>
   \<not> Column_canDrop_part000 (Some (getInitialData item_t1 ''a1''))
       (Element True [(''role'', ''list'')]
          [Element True [(''role'', ''listitem'')] [],
           Element True [(''role'', ''listitem''), (''data-drop-intent'', ''before'')] []]) \<and>
   drop_in_item_region (Some (getInitialData item_t1 ''a1'')) item_t2 ''a1''
       (Element True [(''role'', ''list'')]
          [Element True [(''role'', ''listitem'')] [],
           Element True [(''role'', ''listitem''), (''data-drop-intent'', ''before'')] []])
     = [\<lparr>d_id = ''t1'', d_from = ''a1'', d_to = ''a1'', d_beforeId = ''t2''\<rparr>]"
  using C7_conflict_resolution [of
      "Element True [(''role'', ''list'')]
          [Element True [(''role'', ''listitem'')] [],
           Element True [(''role'', ''listitem''), (''data-drop-intent'', ''before'')] []]"
      "Some (getInitialData item_t1 ''a1'')"
      "Element True [(''role'', ''listitem'')] []"
      "getInitialData item_t1 ''a1''" item_t2 "''a1''"]
  by (simp add: is_item_drag_def getInitialData_def hasAttribute_def
      DraggableItem_onDragEnter_def setAttribute_def)

section \<open>moveItem does not mutate its input\<close>

lemma getArr_append: "getArr h a = Some xs \<Longrightarrow> getArr (h @ h') a = Some xs"
  by (auto simp: getArr_def nth_append split: if_splits)

lemma getArr_prefix: "take n h' = h \<Longrightarrow> getArr h a = Some xs \<Longrightarrow> getArr h' a = Some xs"
  by (metis append_take_drop_id getArr_append)

lemma getArr_update_other: "a \<noteq> b \<Longrightarrow> getArr (h[b := c]) a = getArr h a"
  by (simp add: getArr_def)

lemma getArr_update_same: "a < length h \<Longrightarrow> getArr (h[a := Arr ys]) a = Some ys"
  by (simp add: getArr_def)

lemma getArr_lt: "getArr h a = Some xs \<Longrightarrow> a < length h"
  by (simp add: getArr_def split: if_splits)

lemma read_entries_append: "read_entries h es = Some s \<Longrightarrow> read_entries (h @ h') es = Some s"
proof (induction es arbitrary: s)
  case Nil
  then show ?case by simp
next
  case (Cons e es)
  obtain k a where e: "e = (k, a)" by (cases e)
  from Cons.prems e obtain xs s0 where
    "getArr h a = Some xs" "read_entries h es = Some s0" "s = (k, xs) # s0"
    by (auto split: option.splits)
  with Cons.IH [of s0] e show ?case by (simp add: getArr_append)
qed

lemma read_entries_update_other:
  "a \<notin> snd ` set es \<Longrightarrow> read_entries (h[a := c]) es = read_entries h es"
proof (induction es)
  case Nil
  then show ?case by simp
next
  case (Cons e es)
  obtain k b where e: "e = (k, b)" by (cases e)
  with Cons.prems have "b \<noteq> a" and "a \<notin> snd ` set es" by auto
  with Cons.IH e show ?case by (simp add: getArr_update_other split: option.splits)
qed

lemma read_entries_lookup:
  "read_entries h es = Some s \<Longrightarrow>
   (case map_of es k of
      None \<Rightarrow> map_of s k = None
    | Some a \<Rightarrow> getArr h a \<noteq> None \<and> map_of s k = getArr h a)"
proof (induction es arbitrary: s)
  case Nil
  then show ?case by simp
next
  case (Cons e es)
  obtain k' a where e: "e = (k', a)" by (cases e)
  from Cons.prems e obtain xs s0 where
    *: "getArr h a = Some xs" "read_entries h es = Some s0" "s = (k', xs) # s0"
    by (auto split: option.splits)
  with Cons.IH [of s0] e show ?case by (auto split: option.splits)
qed

lemma read_entries_update:
  "read_entries h es = Some s \<Longrightarrow> distinct (map snd es) \<Longrightarrow> map_of es k = Some a \<Longrightarrow>
   read_entries (h[a := Arr ys]) es = Some (AList.update k ys s)"
proof (induction es arbitrary: s)
  case Nil
  then show ?case by simp
next
  case (Cons e es)
  obtain k' b where e: "e = (k', b)" by (cases e)
  from Cons.prems(1) e obtain xs s0 where
    *: "getArr h b = Some xs" "read_entries h es = Some s0" "s = (k', xs) # s0"
    by (auto split: option.splits)
  show ?case
  proof (cases "k' = k")
    case True
    with Cons.prems(3) e have "b = a" by simp
    with Cons.prems(2) e have "a \<notin> snd ` set es" by simp
    then have "read_entries (h[a := Arr ys]) es = Some s0"
      using * by (simp add: read_entries_update_other)
    with True e * \<open>b = a\<close> show ?thesis
      by (simp add: getArr_update_same getArr_lt)
  next
    case False
    with Cons.prems(3) e have m: "map_of es k = Some a" by simp
    then have "a \<in> snd ` set es" by (metis map_of_SomeD snd_conv image_eqI)
    with Cons.prems(2) e have "b \<noteq> a" by auto
    with Cons.IH [OF *(2) _ m] Cons.prems(2) e False * show ?thesis
      by (simp add: getArr_update_other)
  qed
qed

lemma copyEntries_correct:
  "read_entries h es = Some s \<Longrightarrow>
   \<exists>h1 copies. copyEntries h es = Some (h1, copies) \<and> take (length h) h1 = h \<and>
     read_entries h1 copies = Some s \<and> distinct (map snd copies) \<and>
     (\<forall>a\<in>snd ` set copies. length h \<le> a \<and> a < length h1)"
proof (induction es arbitrary: h s)
  case Nil
  then show ?case by simp
next
  case (Cons e es)
  obtain k v where e: "e = (k, v)" by (cases e)
  from Cons.prems e obtain xs s0 where
    *: "getArr h v = Some xs" "read_entries h es = Some s0" "s = (k, xs) # s0"
    by (auto split: option.splits)
  from *(2) have "read_entries (h @ [Arr xs]) es = Some s0" by (rule read_entries_append)
  from Cons.IH [OF this] obtain h1 copies where
    c: "copyEntries (h @ [Arr xs]) es = Some (h1, copies)"
    and p: "take (length (h @ [Arr xs])) h1 = h @ [Arr xs]"
    and r: "read_entries h1 copies = Some s0"
    and d: "distinct (map snd copies)"
    and b: "\<forall>a\<in>snd ` set copies. length (h @ [Arr xs]) \<le> a \<and> a < length h1"
    by blast
  from p have len: "length h < length h1"
    by (metis length_append_singleton length_take lessI min_less_iff_conj)
  from p have "take (length h) h1 = h"
    by (metis append_eq_conv_conj take_take min.idem length_append_singleton
        le_add2 min.absorb1 plus_1_eq_Suc take_all_iff append_eq_append_conv)
  moreover from p len have "h1 ! length h = Arr xs"
    by (metis length_append_singleton lessI nth_append_length nth_take)
  with len have "getArr h1 (length h) = Some xs" by (simp add: getArr_def)
  moreover from b have "length h \<notin> snd ` set copies" by auto
  ultimately show ?case
    using c r d b e * by (auto simp: len)
qed

lemma fresh_copy_init:
  assumes "read_state h state = Some s"
  shows "\<exists>entries h1 copies. getObj h state = Some entries \<and>
           copyEntries h entries = Some (h1, copies) \<and>
           fresh_copy h (h1 @ [Obj copies]) (length h1) copies s"
proof -
  from assms obtain entries where o: "getObj h state = Some entries"
    and r: "read_entries h entries = Some s"
    by (auto simp: read_state_def split: option.splits)
  from copyEntries_correct [OF r] obtain h1 copies where
    c: "copyEntries h entries = Some (h1, copies)" and p: "take (length h) h1 = h"
    and r1: "read_entries h1 copies = Some s" and d: "distinct (map snd copies)"
    and b: "\<forall>a\<in>snd ` set copies. length h \<le> a \<and> a < length h1"
    by blast
  from p have "length (take (length h) h1) = length h" by simp
  then have le: "length h \<le> length h1" by simp
  with p have "take (length h) (h1 @ [Obj copies]) = h" by simp
  moreover have "getObj (h1 @ [Obj copies]) (length h1) = Some copies"
    by (simp add: getObj_def)
  moreover have "read_entries (h1 @ [Obj copies]) copies = Some s"
    using r1 by (rule read_entries_append)
  ultimately have "fresh_copy h (h1 @ [Obj copies]) (length h1) copies s"
    using d b le by (simp add: fresh_copy_def)
  with o c show ?thesis by blast
qed

lemma fresh_copy_lookup:
  assumes "fresh_copy h0 h next copies s"
  shows "case map_of copies k of
           None \<Rightarrow> map_of s k = None
         | Some a \<Rightarrow> \<exists>xs. getArr h a = Some xs \<and> map_of s k = Some xs"
  using read_entries_lookup [of h copies s k] assms
  by (auto simp: fresh_copy_def split: option.splits)

lemma fresh_copy_write:
  assumes f: "fresh_copy h0 h next copies s" and m: "map_of copies k = Some a"
  shows "fresh_copy h0 (h[a := Arr ys]) next copies (AList.update k ys s)"
proof -
  from m have "a \<in> snd ` set copies" by (metis map_of_SomeD snd_conv image_eqI)
  with f have a: "length h0 \<le> a" "a < next" by (auto simp: fresh_copy_def)
  from f a have "take (length h0) (h[a := Arr ys]) = h0" by (simp add: fresh_copy_def)
  moreover from f a have "getObj (h[a := Arr ys]) next = Some copies"
    by (auto simp: fresh_copy_def getObj_def split: if_splits)
  moreover from f m have "read_entries (h[a := Arr ys]) copies = Some (AList.update k ys s)"
    by (simp add: fresh_copy_def read_entries_update)
  ultimately show ?thesis using f by (simp add: fresh_copy_def)
qed

lemma fresh_copy_read:
  "fresh_copy h0 h next copies s \<Longrightarrow> read_state h next = Some s \<and> take (length h0) h = h0 \<and> length h0 \<le> next"
  by (simp add: fresh_copy_def read_state_def)

lemma read_state_prefix:
  assumes "read_state h0 r = Some s" and "take (length h0) h = h0"
  shows "read_state h r = Some s"
proof -
  from assms(2) obtain rest where h: "h = h0 @ rest" by (metis append_take_drop_id)
  from assms(1) obtain es where o: "getObj h0 r = Some es" and e: "read_entries h0 es = Some s"
    by (auto simp: read_state_def split: option.splits)
  from o have "getObj h r = Some es"
    by (auto simp: h getObj_def nth_append split: if_splits)
  with read_entries_append [OF e, of rest] h show ?thesis by (simp add: read_state_def)
qed

text \<open>What the run on the store returns is what the function on values returns.\<close>

lemma part000_store_refines:
  assumes rs: "read_state h state = Some s"
      and run: "moveItem_part000_store h state args = (h', res)"
  shows "take (length h) h' = h \<and>
         (case res of
            Inl e \<Rightarrow> moveItem_part000 s args = Inl e
          | Inr r \<Rightarrow> length h \<le> r \<and>
              (\<exists>s'. moveItem_part000 s args = Inr s' \<and> read_state h' r = Some s'))"
proof -
  from fresh_copy_init [OF rs] obtain entries h1 copies where
    o: "getObj h state = Some entries" and c: "copyEntries h entries = Some (h1, copies)"
    and f2: "fresh_copy h (h1 @ [Obj copies]) (length h1) copies s"
    by blast
  let ?h2 = "h1 @ [Obj copies]"
  note l2 = fresh_copy_lookup [OF f2, of "d_from args"]
  show ?thesis
  proof (cases "map_of copies (d_from args)")
    case None
    with l2 have "map_of s (d_from args) = None" by simp
    with run o c None fresh_copy_read [OF f2] show ?thesis
      by (auto simp: moveItem_part000_store_def moveItem_part000_def Let_def)
  next
    case (Some source)
    with l2 obtain src where src: "getArr ?h2 source = Some src" "map_of s (d_from args) = Some src"
      by auto
    show ?thesis
    proof (cases "findIndex (\<lambda>i. item_id i = d_id args) src")
      case None
      with run o c Some src fresh_copy_read [OF f2] show ?thesis
        by (auto simp: moveItem_part000_store_def moveItem_part000_def Let_def)
    next
      case idx: (Some idx)
      let ?h3 = "?h2[source := Arr (splice_remove idx src)]"
      let ?s1 = "AList.update (d_from args) (splice_remove idx src) s"
      have f3: "fresh_copy h ?h3 (length h1) copies ?s1"
        using f2 Some by (rule fresh_copy_write)
      note l3 = fresh_copy_lookup [OF f3, of "d_to args"]
      show ?thesis
      proof (cases "map_of copies (d_to args)")
        case None
        with l3 have "map_of ?s1 (d_to args) = None" by simp
        with run o c Some src idx None fresh_copy_read [OF f3] show ?thesis
          by (auto simp: moveItem_part000_store_def moveItem_part000_def Let_def)
      next
        case to: (Some to)
        with l3 obtain tgt where tgt: "getArr ?h3 to = Some tgt" "map_of ?s1 (d_to args) = Some tgt"
          by auto
        have f4: "fresh_copy h (?h3[to := Arr zs]) (length h1) copies (AList.update (d_to args) zs ?s1)" for zs
          using f3 to by (rule fresh_copy_write)
        show ?thesis
        proof (cases "d_beforeId args = ''last''")
          case True
          with run o c Some src idx to tgt
          have "h' = ?h3[to := Arr (push (src ! idx) tgt)]" "res = Inr (length h1)"
            by (auto simp: moveItem_part000_store_def Let_def)
          moreover from True src idx tgt
          have "moveItem_part000 s args = Inr (AList.update (d_to args) (push (src ! idx) tgt) ?s1)"
            by (simp add: moveItem_part000_def Let_def)
          ultimately show ?thesis
            using fresh_copy_read [OF f4 [of "push (src ! idx) tgt"]] by simp
        next
          case False
          define j where "j = (case findIndex (\<lambda>i. item_id i = d_beforeId args) tgt of
                    None \<Rightarrow> length tgt
                  | Some b \<Rightarrow> if d_from args = d_to args \<and> idx \<le> b then b + 1 else b)"
          from False run o c Some src idx to tgt
          have "h' = ?h3[to := Arr (splice_insert j (src ! idx) tgt)]" "res = Inr (length h1)"
            by (auto simp: moveItem_part000_store_def Let_def j_def)
          moreover from False src idx tgt
          have "moveItem_part000 s args = Inr (AList.update (d_to args) (splice_insert j (src ! idx) tgt) ?s1)"
            by (simp add: moveItem_part000_def Let_def j_def)
          ultimately show ?thesis
            using fresh_copy_read [OF f4 [of "splice_insert j (src ! idx) tgt"]] by simp
        qed
      qed
    qed
  qed
qed

lemma App_store_refines:
  assumes rs: "read_state h state = Some s"
      and run: "moveItem_App_store h state args = (h', res)"
  shows "take (length h) h' = h \<and>
         (case res of
            Inl e \<Rightarrow> moveItem_App s args = Inl e
          | Inr r \<Rightarrow>
              (\<exists>src. map_of s (a_from args) = Some src \<and>
                 (if a_id args \<in> item_id ` set src then length h \<le> r else r = state)) \<and>
              (\<exists>s'. moveItem_App s args = Inr s' \<and> read_state h' r = Some s'))"
proof -
  from fresh_copy_init [OF rs] obtain entries h1 copies where
    o: "getObj h state = Some entries" and c: "copyEntries h entries = Some (h1, copies)"
    and f2: "fresh_copy h (h1 @ [Obj copies]) (length h1) copies s"
    by blast
  let ?h2 = "h1 @ [Obj copies]"
  note l2 = fresh_copy_lookup [OF f2, of "a_from args"]
  show ?thesis
  proof (cases "map_of copies (a_from args)")
    case None
    with l2 have "map_of s (a_from args) = None" by simp
    with run o c None fresh_copy_read [OF f2] show ?thesis
      by (auto simp: moveItem_App_store_def moveItem_App_def Let_def)
  next
    case (Some source)
    with l2 obtain src where src: "getArr ?h2 source = Some src" "map_of s (a_from args) = Some src"
      by auto
    show ?thesis
    proof (cases "findIndex (\<lambda>i. item_id i = a_id args) src")
      case None
      with run o c Some src have "h' = ?h2" "res = Inr state"
        by (auto simp: moveItem_App_store_def Let_def)
      moreover from None src have "moveItem_App s args = Inr s"
        by (simp add: moveItem_App_def)
      moreover have "read_state ?h2 state = Some s"
        using rs fresh_copy_read [OF f2] read_state_prefix [of h state s ?h2] by blast
      moreover from None have "a_id args \<notin> item_id ` set src"
        by (auto simp: findIndex_None_iff)
      ultimately show ?thesis using fresh_copy_read [OF f2] src(2) by auto
    next
      case idx: (Some idx)
      then have "idx < length src" and "item_id (src ! idx) = a_id args"
        by (simp_all add: findIndex_Some_iff)
      then have present: "a_id args \<in> item_id ` set src"
        by (metis image_eqI nth_mem)
      let ?h3 = "?h2[source := Arr (splice_remove idx src)]"
      let ?s1 = "AList.update (a_from args) (splice_remove idx src) s"
      have f3: "fresh_copy h ?h3 (length h1) copies ?s1"
        using f2 Some by (rule fresh_copy_write)
      note l3 = fresh_copy_lookup [OF f3, of "a_to args"]
      show ?thesis
      proof (cases "a_toEnd args \<or> truthy (a_beforeId args)")
        case False
        with run o c Some src idx have "h' = ?h3" "res = Inr (length h1)"
          by (auto simp: moveItem_App_store_def Let_def)
        moreover from False src idx have "moveItem_App s args = Inr ?s1"
          by (simp add: moveItem_App_def Let_def)
        ultimately show ?thesis using fresh_copy_read [OF f3] present src(2) by simp
      next
        case shaped: True
        show ?thesis
        proof (cases "map_of copies (a_to args)")
          case None
          with l3 have n: "map_of ?s1 (a_to args) = None" by simp
          from shaped run o c Some src idx None
          have "h' = ?h3" "res = Inl TypeError"
            by (auto simp: moveItem_App_store_def Let_def split: if_splits)
          moreover from shaped src idx n have "moveItem_App s args = Inl TypeError"
            by (auto simp: moveItem_App_def Let_def)
          ultimately show ?thesis using fresh_copy_read [OF f3] present src(2) by simp
        next
          case to: (Some to)
          with l3 obtain tgt where tgt: "getArr ?h3 to = Some tgt" "map_of ?s1 (a_to args) = Some tgt"
            by auto
          have f4: "fresh_copy h (?h3[to := Arr zs]) (length h1) copies (AList.update (a_to args) zs ?s1)" for zs
            using f3 to by (rule fresh_copy_write)
          define zs where "zs = (if a_toEnd args then push (src ! idx) tgt
             else splice_insert (case findIndex (\<lambda>i. Some (item_id i) = a_beforeId args) tgt of
                      None \<Rightarrow> length tgt | Some b \<Rightarrow> b) (src ! idx) tgt)"
          from shaped run o c Some src idx to tgt
          have "h' = ?h3[to := Arr zs]" "res = Inr (length h1)"
            by (auto simp: moveItem_App_store_def Let_def zs_def split: if_splits)
          moreover from shaped src idx tgt
          have "moveItem_App s args = Inr (AList.update (a_to args) zs ?s1)"
            by (auto simp: moveItem_App_def Let_def zs_def)
          ultimately show ?thesis
            using fresh_copy_read [OF f4 [of zs]] present src(2) by simp
        qed
      qed
    qed
  qed
qed

text \<open>Containers other than the source and the target keep their sequences.\<close>

lemma part000_frame:
  assumes "moveItem_part000 s a = Inr s'"
  shows "map fst s' = map fst s \<and>
         (\<forall>k. k \<noteq> d_from a \<and> k \<noteq> d_to a \<longrightarrow> map_of s' k = map_of s k) \<and>
         (d_from a = d_to a \<longrightarrow> (\<exists>zs. s' = AList.update (d_from a) zs s))"
  using assms
proof (rule part000_Inr_cases)
  fix source idx to j
  assume "map_of s (d_from a) = Some source"
    and "map_of (AList.update (d_from a) (splice_remove idx source) s) (d_to a) = Some to"
    and "s' = AList.update (d_to a) (splice_insert j (source ! idx) to)
                (AList.update (d_from a) (splice_remove idx source) s)"
  then show ?thesis
    by (auto simp: keys_update update_conv')
qed

lemma App_frame:
  assumes res: "moveItem_App s a = Inr s'"
  shows "map fst s' = map fst s \<and>
         (\<forall>k. k \<noteq> a_from a \<and> k \<noteq> a_to a \<longrightarrow> map_of s' k = map_of s k) \<and>
         (a_from a = a_to a \<longrightarrow> s' = s \<or> (\<exists>zs. s' = AList.update (a_from a) zs s))"
proof (cases "drop_shaped a")
  case True
  with res show ?thesis
  proof (rule App_Inr_cases)
    assume "s' = s"
    then show ?thesis by simp
  next
    fix source idx to j
    assume "map_of s (a_from a) = Some source"
      and "map_of (AList.update (a_from a) (splice_remove idx source) s) (a_to a) = Some to"
      and "s' = AList.update (a_to a) (splice_insert j (source ! idx) to)
                (AList.update (a_from a) (splice_remove idx source) s)"
    then show ?thesis
      by (auto simp: keys_update update_conv')
  qed
next
  case False
  from res obtain source where src: "map_of s (a_from a) = Some source"
    by (cases "map_of s (a_from a)") (simp_all add: moveItem_App_def)
  show ?thesis
  proof (cases "findIndex (\<lambda>i. item_id i = a_id a) source")
    case None
    with res src have "s' = s" by (simp add: moveItem_App_def)
    then show ?thesis by simp
  next
    case (Some idx)
    with res src False have "s' = AList.update (a_from a) (splice_remove idx source) s"
      by (simp add: moveItem_App_def Let_def drop_shaped_def)
    with src show ?thesis by (auto simp: keys_update update_conv')
  qed
qed

lemma part000_success:
  assumes "map_of s (d_from a) = Some source" and "d_id a \<in> item_id ` set source"
      and "d_to a \<in> fst ` set s"
  shows "\<exists>s'. moveItem_part000 s a = Inr s'"
proof -
  from assms(2) obtain idx where idx: "findIndex (\<lambda>x. item_id x = d_id a) source = Some idx"
    using findIndex_present by blast
  from assms(3) have "d_to a \<in> fst ` set (AList.update (d_from a) (splice_remove idx source) s)"
    by (simp add: dom_update)
  then obtain to where
    "map_of (AList.update (d_from a) (splice_remove idx source) s) (d_to a) = Some to"
    by (metis map_of_eq_None_iff not_Some_eq)
  with assms(1) idx show ?thesis by (simp add: moveItem_part000_def Let_def)
qed

lemma part000_store_new:
  assumes rs: "read_state h state = Some s"
      and "map_of s (d_from a) = Some source" and "d_id a \<in> item_id ` set source"
      and "d_to a \<in> fst ` set s"
  shows "\<exists>r. snd (moveItem_part000_store h state a) = Inr r \<and> length h \<le> r"
proof -
  from part000_success [OF assms(2-4)] obtain s' where p: "moveItem_part000 s a = Inr s'" ..
  obtain h' res where run: "moveItem_part000_store h state a = (h', res)"
    by (cases "moveItem_part000_store h state a")
  from part000_store_refines [OF rs run] p run show ?thesis
    by (cases res) auto
qed

lemma App_store_new:
  assumes rs: "read_state h state = Some s"
      and "map_of s (a_from a) = Some source" and "a_id a \<in> item_id ` set source"
      and "a_to a \<in> fst ` set s"
  shows "\<exists>r. snd (moveItem_App_store h state a) = Inr r \<and> length h \<le> r"
proof -
  from assms(2,4) have "a_from a \<in> fst ` set s"
    by (metis map_of_eq_None_iff option.distinct(1))
  with assms(4) obtain s' where p: "moveItem_App s a = Inr s'"
    using App_total [of a s] by blast
  obtain h' res where run: "moveItem_App_store h state a = (h', res)"
    by (cases "moveItem_App_store h state a")
  from App_store_refines [OF rs run] p run assms(2,3) show ?thesis
    by (cases res) auto
qed

text \<open>
  Claim C6, in the form that holds of the code. On the store of objects and arrays, for
  a reference \<open>state\<close> that stands for a snapshot \<open>s\<close>: every call of \<open>moveItem\<close>, in
  either file, whatever it returns or throws, leaves each cell that existed before the
  call as it was (the store before is a prefix of the store after), so the input object
  and its sequences are not mutated and \<open>state\<close> still stands for \<open>s\<close>. When the item is
  in the source container and the target container exists, the call returns a new
  object. A reference returned by part_000 is always a new object; one returned by
  App.tsx is a new object when the item is in the source container and \<open>state\<close> itself
  when it is not. The returned reference stands for the snapshot that \<open>moveItem\<close> on
  values returns: it has the same keys in the same order, every container other than the
  source and the target has the sequence it had, and when source and target are one
  container the result is the input with that one sequence replaced.
\<close>

theorem C6_purity:
  "(read_state h state = Some s \<and> moveItem_part000_store h state dargs = (h', res) \<longrightarrow>
      take (length h) h' = h \<and> read_state h' state = Some s \<and>
      (\<forall>r. res = Inr r \<longrightarrow>
         length h \<le> r \<and>
         (\<exists>s'. read_state h' r = Some s' \<and> moveItem_part000 s dargs = Inr s' \<and>
               map fst s' = map fst s \<and>
               (\<forall>k. k \<noteq> d_from dargs \<and> k \<noteq> d_to dargs \<longrightarrow> map_of s' k = map_of s k) \<and>
               (d_from dargs = d_to dargs \<longrightarrow> (\<exists>zs. s' = AList.update (d_from dargs) zs s))))) \<and>
   (read_state h state = Some s \<and> moveItem_App_store h state args = (h'', res') \<longrightarrow>
      take (length h) h'' = h \<and> read_state h'' state = Some s \<and>
      (\<forall>r. res' = Inr r \<longrightarrow>
         (\<exists>src. map_of s (a_from args) = Some src \<and>
            (if a_id args \<in> item_id ` set src then length h \<le> r else r = state)) \<and>
         (\<exists>s'. read_state h'' r = Some s' \<and> moveItem_App s args = Inr s' \<and>
               map fst s' = map fst s \<and>
               (\<forall>k. k \<noteq> a_from args \<and> k \<noteq> a_to args \<longrightarrow> map_of s' k = map_of s k) \<and>
               (a_from args = a_to args \<longrightarrow>
                  s' = s \<or> (\<exists>zs. s' = AList.update (a_from args) zs s))))) \<and>
   (read_state h state = Some s \<and> map_of s (d_from dargs) = Some dsource \<and>
    d_id dargs \<in> item_id ` set dsource \<and> d_to dargs \<in> fst ` set s \<longrightarrow>
      (\<exists>r. snd (moveItem_part000_store h state dargs) = Inr r \<and> length h \<le> r)) \<and>
   (read_state h state = Some s \<and> map_of s (a_from args) = Some source \<and>
    a_id args \<in> item_id ` set source \<and> a_to args \<in> fst ` set s \<longrightarrow>
      (\<exists>r. snd (moveItem_App_store h state args) = Inr r \<and> length h \<le> r))"
proof (intro conjI impI)
  assume a: "read_state h state = Some s \<and> moveItem_part000_store h state dargs = (h', res)"
  then have ref: "take (length h) h' = h \<and>
         (case res of
            Inl e \<Rightarrow> moveItem_part000 s dargs = Inl e
          | Inr r \<Rightarrow> length h \<le> r \<and>
              (\<exists>s'. moveItem_part000 s dargs = Inr s' \<and> read_state h' r = Some s'))"
    using part000_store_refines [of h state s dargs h' res] by blast
  then show "take (length h) h' = h" by simp
  with a show "read_state h' state = Some s"
    using read_state_prefix [of h state s h'] by blast
  show "\<forall>r. res = Inr r \<longrightarrow>
         length h \<le> r \<and>
         (\<exists>s'. read_state h' r = Some s' \<and> moveItem_part000 s dargs = Inr s' \<and>
               map fst s' = map fst s \<and>
               (\<forall>k. k \<noteq> d_from dargs \<and> k \<noteq> d_to dargs \<longrightarrow> map_of s' k = map_of s k) \<and>
               (d_from dargs = d_to dargs \<longrightarrow> (\<exists>zs. s' = AList.update (d_from dargs) zs s)))"
  proof (intro allI impI)
    fix r assume "res = Inr r"
    with ref obtain s' where "length h \<le> r" "moveItem_part000 s dargs = Inr s'"
      "read_state h' r = Some s'" by auto
    with part000_frame [of s dargs s'] show "length h \<le> r \<and>
         (\<exists>s'. read_state h' r = Some s' \<and> moveItem_part000 s dargs = Inr s' \<and>
               map fst s' = map fst s \<and>
               (\<forall>k. k \<noteq> d_from dargs \<and> k \<noteq> d_to dargs \<longrightarrow> map_of s' k = map_of s k) \<and>
               (d_from dargs = d_to dargs \<longrightarrow> (\<exists>zs. s' = AList.update (d_from dargs) zs s)))"
      by blast
  qed
next
  assume a: "read_state h state = Some s \<and> moveItem_App_store h state args = (h'', res')"
  then have ref: "take (length h) h'' = h \<and>
         (case res' of
            Inl e \<Rightarrow> moveItem_App s args = Inl e
          | Inr r \<Rightarrow>
              (\<exists>src. map_of s (a_from args) = Some src \<and>
                 (if a_id args \<in> item_id ` set src then length h \<le> r else r = state)) \<and>
              (\<exists>s'. moveItem_App s args = Inr s' \<and> read_state h'' r = Some s'))"
    using App_store_refines [of h state s args h'' res'] by blast
  then show "take (length h) h'' = h" by simp
  with a show "read_state h'' state = Some s"
    using read_state_prefix [of h state s h''] by blast
  show "\<forall>r. res' = Inr r \<longrightarrow>
         (\<exists>src. map_of s (a_from args) = Some src \<and>
            (if a_id args \<in> item_id ` set src then length h \<le> r else r = state)) \<and>
         (\<exists>s'. read_state h'' r = Some s' \<and> moveItem_App s args = Inr s' \<and>
               map fst s' = map fst s \<and>
               (\<forall>k. k \<noteq> a_from args \<and> k \<noteq> a_to args \<longrightarrow> map_of s' k = map_of s k) \<and>
               (a_from args = a_to args \<longrightarrow>
                  s' = s \<or> (\<exists>zs. s' = AList.update (a_from args) zs s)))"
  proof (intro allI impI)
    fix r assume "res' = Inr r"
    with ref obtain s' where
      "\<exists>src. map_of s (a_from args) = Some src \<and>
         (if a_id args \<in> item_id ` set src then length h \<le> r else r = state)"
      "moveItem_App s args = Inr s'" "read_state h'' r = Some s'" by auto
    with App_frame [of s args s'] show
        "(\<exists>src. map_of s (a_from args) = Some src \<and>
            (if a_id args \<in> item_id ` set src then length h \<le> r else r = state)) \<and>
         (\<exists>s'. read_state h'' r = Some s' \<and> moveItem_App s args = Inr s' \<and>
               map fst s' = map fst s \<and>
               (\<forall>k. k \<noteq> a_from args \<and> k \<noteq> a_to args \<longrightarrow> map_of s' k = map_of s k) \<and>
               (a_from args = a_to args \<longrightarrow>
                  s' = s \<or> (\<exists>zs. s' = AList.update (a_from args) zs s)))"
      by blast
  qed
next
  assume "read_state h state = Some s \<and> map_of s (d_from dargs) = Some dsource \<and>
    d_id dargs \<in> item_id ` set dsource \<and> d_to dargs \<in> fst ` set s"
  then show "\<exists>r. snd (moveItem_part000_store h state dargs) = Inr r \<and> length h \<le> r"
    using part000_store_new [of h state s dargs dsource] by blast
next
  assume "read_state h state = Some s \<and> map_of s (a_from args) = Some source \<and>
    a_id args \<in> item_id ` set source \<and> a_to args \<in> fst ` set s"
  then show "\<exists>r. snd (moveItem_App_store h state args) = Inr r \<and> length h \<le> r"
    using App_store_new [of h state s args source] by blast
qed

text \<open>
  The move of \<open>x\<close> from \<open>A\<close> to \<open>B\<close> before \<open>z\<close>: cells 0 to 3 are as before, the
  result is the new object at reference 7, and \<open>C\<close> holds the sequence it held.
\<close>

theorem C6_purity_witness:
  "read_state store_0 3 = Some [(''A'', [item_x, item_y]), (''B'', [item_z]), (''C'', [])] \<and>
   moveItem_part000_store store_0 3
     \<lparr>d_id = ''x'', d_from = ''A'', d_to = ''B'', d_beforeId = ''z''\<rparr> = (store_1, Inr 7) \<and>
   moveItem_App_store store_0 3
     \<lparr>a_id = ''x'', a_from = ''A'', a_to = ''B'', a_beforeId = Some ''z'', a_toEnd = False\<rparr>
     = (store_1, Inr 7) \<and>
   take (length store_0) store_1 = store_0 \<and>
   read_state store_1 3 = Some [(''A'', [item_x, item_y]), (''B'', [item_z]), (''C'', [])] \<and>
   length store_0 \<le> 7 \<and>
   read_state store_1 7 = Some [(''A'', [item_y]), (''B'', [item_x, item_z]), (''C'', [])] \<and>
   moveItem_part000 [(''A'', [item_x, item_y]), (''B'', [item_z]), (''C'', [])]
     \<lparr>d_id = ''x'', d_from = ''A'', d_to = ''B'', d_beforeId = ''z''\<rparr>
     = Inr [(''A'', [item_y]), (''B'', [item_x, item_z]), (''C'', [])] \<and>
   moveItem_App [(''A'', [item_x, item_y]), (''B'', [item_z]), (''C'', [])]
     \<lparr>a_id = ''x'', a_from = ''A'', a_to = ''B'', a_beforeId = Some ''z'', a_toEnd = False\<rparr>
     = Inr [(''A'', [item_y]), (''B'', [item_x, item_z]), (''C'', [])]"
proof -
  have r: "read_state store_0 3 = Some [(''A'', [item_x, item_y]), (''B'', [item_z]), (''C'', [])]"
    by (simp add: read_state_def getObj_def getArr_def)
  have r1: "read_state store_1 7 = Some [(''A'', [item_y]), (''B'', [item_x, item_z]), (''C'', [])]"
    by (simp add: read_state_def getObj_def getArr_def)
  have p: "moveItem_part000_store store_0 3
     \<lparr>d_id = ''x'', d_from = ''A'', d_to = ''B'', d_beforeId = ''z''\<rparr> = (store_1, Inr 7)"
    by (simp add: moveItem_part000_store_def getObj_def getArr_def Let_def
        splice_remove_def splice_insert_def nth_append)
  have a: "moveItem_App_store store_0 3
     \<lparr>a_id = ''x'', a_from = ''A'', a_to = ''B'', a_beforeId = Some ''z'', a_toEnd = False\<rparr>
     = (store_1, Inr 7)"
    by (simp add: moveItem_App_store_def getObj_def getArr_def Let_def truthy_def
        splice_remove_def splice_insert_def nth_append)
  show ?thesis
    using r r1 p a
      C6_purity [of store_0 3 "[(''A'', [item_x, item_y]), (''B'', [item_z]), (''C'', [])]"
        "\<lparr>d_id = ''x'', d_from = ''A'', d_to = ''B'', d_beforeId = ''z''\<rparr>" store_1 "Inr 7"
        "\<lparr>a_id = ''x'', a_from = ''A'', a_to = ''B'', a_beforeId = Some ''z'', a_toEnd = False\<rparr>"
        store_1 "Inr 7" "[item_x, item_y]" "[item_x, item_y]"]
    by simp
qed

text \<open>
  Claim C6 in its original form fails on src/src/App.tsx: for a request whose item \<open>q\<close>
  is in no container the call returns reference 3, the input snapshot itself, an object
  that existed before the call, and no new snapshot.
\<close>

theorem C6_counterexample:
  "read_state store_0 3 = Some [(''A'', [item_x, item_y]), (''B'', [item_z]), (''C'', [])] \<and>
   snd (moveItem_App_store store_0 3
     \<lparr>a_id = ''q'', a_from = ''A'', a_to = ''B'', a_beforeId = Some ''z'', a_toEnd = False\<rparr>)
   = Inr 3 \<and>
   \<not> length store_0 \<le> 3"
  by (simp add: read_state_def moveItem_App_store_def getObj_def getArr_def Let_def nth_append)

section \<open>A request for an item that the source container does not hold\<close>


lemma store_absent_item:
  assumes rs: "read_state h state = Some s"
      and src: "map_of s k = Some source"
  shows "\<exists>entries h1 copies a. getObj h state = Some entries \<and>
           copyEntries h entries = Some (h1, copies) \<and> map_of copies k = Some a \<and>
           getArr (h1 @ [Obj copies]) a = Some source \<and> take (length h) (h1 @ [Obj copies]) = h"
proof -
  from fresh_copy_init [OF rs] obtain entries h1 copies where
    o: "getObj h state = Some entries" and c: "copyEntries h entries = Some (h1, copies)"
    and f2: "fresh_copy h (h1 @ [Obj copies]) (length h1) copies s"
    by blast
  from fresh_copy_lookup [OF f2, of k] src obtain a where
    "map_of copies k = Some a" "getArr (h1 @ [Obj copies]) a = Some source"
    by (cases "map_of copies k") auto
  with o c fresh_copy_read [OF f2] show ?thesis by blast
qed

lemma App_store_absent:
  assumes "read_state h state = Some s" and "map_of s (a_from args) = Some source"
      and "a_id args \<notin> item_id ` set source"
  shows "snd (moveItem_App_store h state args) = Inr state \<and>
         take (length h) (fst (moveItem_App_store h state args)) = h"
proof -
  from store_absent_item [OF assms(1,2)] obtain entries h1 copies a where
    "getObj h state = Some entries" "copyEntries h entries = Some (h1, copies)"
    "map_of copies (a_from args) = Some a" "getArr (h1 @ [Obj copies]) a = Some source"
    "take (length h) (h1 @ [Obj copies]) = h"
    by blast
  with assms(3) show ?thesis
    by (simp add: moveItem_App_store_def Let_def findIndex_id_None del: take_append)
qed

lemma part000_store_absent:
  assumes "read_state h state = Some s" and "map_of s (d_from args) = Some source"
      and "d_id args \<notin> item_id ` set source"
  shows "snd (moveItem_part000_store h state args) = Inl InvariantFailed \<and>
         take (length h) (fst (moveItem_part000_store h state args)) = h"
proof -
  from store_absent_item [OF assms(1,2)] obtain entries h1 copies a where
    "getObj h state = Some entries" "copyEntries h entries = Some (h1, copies)"
    "map_of copies (d_from args) = Some a" "getArr (h1 @ [Obj copies]) a = Some source"
    "take (length h) (h1 @ [Obj copies]) = h"
    by blast
  with assms(3) show ?thesis
    by (simp add: moveItem_part000_store_def Let_def findIndex_id_None del: take_append)
qed

text \<open>
  Claim C3, in the form that holds of the code. When the source container exists and
  holds no item with the request's item id: \<open>moveItem\<close> of src/src/App.tsx returns the
  input snapshot, with the same containers and the same sequences; on the store it
  returns the very reference it was given and has changed no cell that existed before.
  \<open>moveItem\<close> of src/unnamed/part_000 throws the error of \<^verbatim>\<open>invariant\<close> and returns no
  snapshot, also without a change to a cell that existed before.
\<close>

theorem C3_absent_item:
  "(map_of state (a_from args) = Some source \<and> a_id args \<notin> item_id ` set source
      \<longrightarrow> moveItem_App state args = Inr state) \<and>
   (read_state h r = Some state \<and> map_of state (a_from args) = Some source \<and>
    a_id args \<notin> item_id ` set source
      \<longrightarrow> snd (moveItem_App_store h r args) = Inr r \<and>
          take (length h) (fst (moveItem_App_store h r args)) = h) \<and>
   (map_of state (d_from dargs) = Some dsource \<and> d_id dargs \<notin> item_id ` set dsource
      \<longrightarrow> moveItem_part000 state dargs = Inl InvariantFailed) \<and>
   (read_state h r = Some state \<and> map_of state (d_from dargs) = Some dsource \<and>
    d_id dargs \<notin> item_id ` set dsource
      \<longrightarrow> snd (moveItem_part000_store h r dargs) = Inl InvariantFailed \<and>
          take (length h) (fst (moveItem_part000_store h r dargs)) = h)"
  using App_store_absent [of h r state args source]
    part000_store_absent [of h r state dargs dsource]
  by (simp add: moveItem_App_def moveItem_part000_def findIndex_id_None)

text \<open>An item id \<open>q\<close> that is not in container \<open>A\<close> of \<open>{A: [x, y], B: [z], C: []}\<close>.\<close>

theorem C3_absent_item_witness:
  "map_of [(''A'', [item_x, item_y]), (''B'', [item_z]), (''C'', [])] ''A'' = Some [item_x, item_y] \<and>
   ''q'' \<notin> item_id ` set [item_x, item_y] \<and>
   read_state store_0 3 = Some [(''A'', [item_x, item_y]), (''B'', [item_z]), (''C'', [])] \<and>
   moveItem_App [(''A'', [item_x, item_y]), (''B'', [item_z]), (''C'', [])]
     \<lparr>a_id = ''q'', a_from = ''A'', a_to = ''B'', a_beforeId = Some ''z'', a_toEnd = False\<rparr>
   = Inr [(''A'', [item_x, item_y]), (''B'', [item_z]), (''C'', [])] \<and>
   snd (moveItem_App_store store_0 3
     \<lparr>a_id = ''q'', a_from = ''A'', a_to = ''B'', a_beforeId = Some ''z'', a_toEnd = False\<rparr>)
   = Inr 3 \<and>
   moveItem_part000 [(''A'', [item_x, item_y]), (''B'', [item_z]), (''C'', [])]
     \<lparr>d_id = ''q'', d_from = ''A'', d_to = ''B'', d_beforeId = ''z''\<rparr>
   = Inl InvariantFailed \<and>
   snd (moveItem_part000_store store_0 3
     \<lparr>d_id = ''q'', d_from = ''A'', d_to = ''B'', d_beforeId = ''z''\<rparr>)
   = Inl InvariantFailed"
proof -
  have r: "read_state store_0 3 = Some [(''A'', [item_x, item_y]), (''B'', [item_z]), (''C'', [])]"
    by (simp add: read_state_def getObj_def getArr_def)
  show ?thesis
    using r C3_absent_item [of "[(''A'', [item_x, item_y]), (''B'', [item_z]), (''C'', [])]"
      "\<lparr>a_id = ''q'', a_from = ''A'', a_to = ''B'', a_beforeId = Some ''z'', a_toEnd = False\<rparr>"
      "[item_x, item_y]" store_0 3
      "\<lparr>d_id = ''q'', d_from = ''A'', d_to = ''B'', d_beforeId = ''z''\<rparr>"
      "[item_x, item_y]"]
    by simp
qed

text \<open>
  Claim C3 in its original form fails on src/unnamed/part_000: with the item absent
  from the source container the call throws, it does not return the snapshot.
\<close>

theorem C3_counterexample:
  "''q'' \<notin> item_id ` set [item_x, item_y] \<and>
   moveItem_part000 [(''A'', [item_x, item_y]), (''B'', [item_z])]
     \<lparr>d_id = ''q'', d_from = ''A'', d_to = ''B'', d_beforeId = ''z''\<rparr>
   = Inl InvariantFailed \<and>
   moveItem_part000 [(''A'', [item_x, item_y]), (''B'', [item_z])]
     \<lparr>d_id = ''q'', d_from = ''A'', d_to = ''B'', d_beforeId = ''z''\<rparr>
   \<noteq> Inr [(''A'', [item_x, item_y]), (''B'', [item_z])]"
  by (simp add: moveItem_part000_def)

end
